theory Spec2Isabelle
  imports Complex_Main "HOL-Library.Log_Nat"
begin

section \<open>JavaScript numbers\<close>

text \<open>
  Every number of the TypeScript sources is an IEEE 754 binary64 value. A finite value is
  kept as the rational it denotes; the two infinities and NaN are constructors of their
  own. The two zeros are not told apart: none of the modelled code divides by zero or
  inspects the sign of a zero.
\<close>

datatype jsnum = NaN | PosInf | NegInf | Finite rat

definition pow2 :: "int \<Rightarrow> rat" where
  "pow2 k = (if 0 \<le> k then 2 ^ nat k else 1 / 2 ^ nat (- k))"

text \<open>The binary exponent of a positive rational: \<open>pow2 (flog2 x) \<le> x < pow2 (flog2 x + 1)\<close>.\<close>

definition flog2 :: "rat \<Rightarrow> int" where
  "flog2 x = (if 1 \<le> x then bitlen \<lfloor>x\<rfloor> - 1 else - bitlen (\<lceil>1 / x\<rceil> - 1))"

text \<open>Rounding to the nearest integer, ties to the even one.\<close>

definition rne :: "rat \<Rightarrow> int" where
  "rne x = (let f = \<lfloor>x\<rfloor>; r = x - of_int f in
     if r < 1 / 2 then f else if 1 / 2 < r then f + 1 else if even f then f else f + 1)"

text \<open>
  Rounding an exact result to binary64, round-to-nearest-even: 53 significant bits, the
  exponent not below \<open>-1022\<close> (gradual underflow on the grid of \<open>2^-1074\<close>), and overflow
  to an infinity when the rounded magnitude reaches \<open>2^1024\<close>.
\<close>

definition rnd :: "rat \<Rightarrow> jsnum" where
  "rnd x = (if x = 0 then Finite 0 else
     let e = max (flog2 \<bar>x\<bar>) (- 1022);
         q = pow2 (e - 52);
         y = of_int (rne (\<bar>x\<bar> / q)) * q
     in if pow2 1024 \<le> y then (if 0 < x then PosInf else NegInf) else Finite (sgn x * y))"

text \<open>The operators \<open>*\<close>, \<open>+\<close>, unary and binary \<open>-\<close> on numbers.\<close>

fun fmul :: "jsnum \<Rightarrow> jsnum \<Rightarrow> jsnum" where
  "fmul (Finite a) (Finite b) = rnd (a * b)"
| "fmul NaN _ = NaN"
| "fmul _ NaN = NaN"
| "fmul (Finite a) PosInf = (if a = 0 then NaN else if 0 < a then PosInf else NegInf)"
| "fmul (Finite a) NegInf = (if a = 0 then NaN else if 0 < a then NegInf else PosInf)"
| "fmul PosInf (Finite b) = (if b = 0 then NaN else if 0 < b then PosInf else NegInf)"
| "fmul NegInf (Finite b) = (if b = 0 then NaN else if 0 < b then NegInf else PosInf)"
| "fmul PosInf PosInf = PosInf"
| "fmul PosInf NegInf = NegInf"
| "fmul NegInf PosInf = NegInf"
| "fmul NegInf NegInf = PosInf"

fun fadd :: "jsnum \<Rightarrow> jsnum \<Rightarrow> jsnum" where
  "fadd (Finite a) (Finite b) = rnd (a + b)"
| "fadd NaN _ = NaN"
| "fadd _ NaN = NaN"
| "fadd PosInf NegInf = NaN"
| "fadd NegInf PosInf = NaN"
| "fadd PosInf _ = PosInf"
| "fadd _ PosInf = PosInf"
| "fadd NegInf _ = NegInf"
| "fadd _ NegInf = NegInf"

fun fneg :: "jsnum \<Rightarrow> jsnum" where
  "fneg NaN = NaN"
| "fneg PosInf = NegInf"
| "fneg NegInf = PosInf"
| "fneg (Finite a) = Finite (- a)"

definition fsub :: "jsnum \<Rightarrow> jsnum \<Rightarrow> jsnum" where
  "fsub a b = fadd a (fneg b)"

text \<open>The comparisons \<open><\<close> and \<open><=\<close>: false as soon as an operand is NaN.\<close>

fun js_lt :: "jsnum \<Rightarrow> jsnum \<Rightarrow> bool" where
  "js_lt NaN _ = False"
| "js_lt _ NaN = False"
| "js_lt (Finite a) (Finite b) = (a < b)"
| "js_lt NegInf NegInf = False"
| "js_lt NegInf _ = True"
| "js_lt _ NegInf = False"
| "js_lt PosInf _ = False"
| "js_lt _ PosInf = True"

fun js_le :: "jsnum \<Rightarrow> jsnum \<Rightarrow> bool" where
  "js_le NaN _ = False"
| "js_le _ NaN = False"
| "js_le a b = (a = b \<or> js_lt a b)"

text \<open>A numeric literal of the source denotes the binary64 value nearest to it.\<close>

definition lit :: "rat \<Rightarrow> jsnum" where
  "lit q = rnd q"

text \<open>Truthiness of a number, and \<open>a || b\<close> on numbers: NaN and zero are falsy.\<close>

fun truthy :: "jsnum \<Rightarrow> bool" where
  "truthy NaN = False"
| "truthy (Finite a) = (a \<noteq> 0)"
| "truthy _ = True"

definition js_or :: "jsnum \<Rightarrow> jsnum \<Rightarrow> jsnum" where
  "js_or a b = (if truthy a then a else b)"

text \<open>\<open>Math.round\<close>: the integer nearest to the argument, a tie going up.\<close>

fun Math_round :: "jsnum \<Rightarrow> jsnum" where
  "Math_round (Finite a) = Finite (of_int \<lfloor>a + 1 / 2\<rfloor>)"
| "Math_round x = x"

definition is_integer :: "jsnum \<Rightarrow> bool" where
  "is_integer x = (case x of Finite a \<Rightarrow> a = of_int \<lfloor>a\<rfloor> | _ \<Rightarrow> False)"

definition is_finite :: "jsnum \<Rightarrow> bool" where
  "is_finite x = (case x of Finite a \<Rightarrow> True | _ \<Rightarrow> False)"

section \<open>Strings to numbers\<close>

text \<open>
  A JavaScript string is kept as the list of the bytes of its UTF-8 encoding (an unpaired
  surrogate as the three bytes of its code point), so an ASCII character is one \<open>char\<close>
  and any other character two to four bytes from \<open>0x80\<close> upwards. Equality and
  concatenation of the strings at hand are those of the byte lists.
\<close>

definition is_digit :: "char \<Rightarrow> bool" where
  "is_digit c = (c \<in> set ''0123456789'')"

definition digit_val :: "char \<Rightarrow> int" where
  "digit_val c = of_char c - 48"

text \<open>The value of a string of decimal digits, most significant first.\<close>

definition digits_val :: "string \<Rightarrow> int" where
  "digits_val ds = foldl (\<lambda>acc c. 10 * acc + digit_val c) 0 ds"

definition pow10 :: "int \<Rightarrow> rat" where
  "pow10 k = (if 0 \<le> k then 10 ^ nat k else 1 / 10 ^ nat (- k))"

text \<open>
  The white space and line terminators that \<open>parseFloat\<close> skips. In ASCII: TAB, LF, VT,
  FF, CR and SP. Outside ASCII, by their encodings: U+00A0; U+1680; U+2000 to U+200A,
  U+2028, U+2029, U+202F; U+205F; U+3000; U+FEFF.
\<close>

definition is_ws :: "char \<Rightarrow> bool" where
  "is_ws c = (c \<in> set [CHR 0x09, CHR 0x0A, CHR 0x0B, CHR 0x0C, CHR 0x0D, CHR '' ''])"

definition ws3 :: "string list" where
  "ws3 =
     [[CHR 0xE1, CHR 0x9A, CHR 0x80],
      [CHR 0xE2, CHR 0x80, CHR 0x80], [CHR 0xE2, CHR 0x80, CHR 0x81],
      [CHR 0xE2, CHR 0x80, CHR 0x82], [CHR 0xE2, CHR 0x80, CHR 0x83],
      [CHR 0xE2, CHR 0x80, CHR 0x84], [CHR 0xE2, CHR 0x80, CHR 0x85],
      [CHR 0xE2, CHR 0x80, CHR 0x86], [CHR 0xE2, CHR 0x80, CHR 0x87],
      [CHR 0xE2, CHR 0x80, CHR 0x88], [CHR 0xE2, CHR 0x80, CHR 0x89],
      [CHR 0xE2, CHR 0x80, CHR 0x8A],
      [CHR 0xE2, CHR 0x80, CHR 0xA8], [CHR 0xE2, CHR 0x80, CHR 0xA9],
      [CHR 0xE2, CHR 0x80, CHR 0xAF],
      [CHR 0xE2, CHR 0x81, CHR 0x9F],
      [CHR 0xE3, CHR 0x80, CHR 0x80],
      [CHR 0xEF, CHR 0xBB, CHR 0xBF]]"

text \<open>The number of bytes of the white space character a string starts with, 0 if none.\<close>

definition ws_len :: "string \<Rightarrow> nat" where
  "ws_len s =
     (case s of
        [] \<Rightarrow> 0
      | c # r \<Rightarrow>
          if is_ws c then 1
          else if take 2 s = [CHR 0xC2, CHR 0xA0] then 2
          else if take 3 s \<in> set ws3 then 3
          else 0)"

function skip_ws :: "string \<Rightarrow> string" where
  "skip_ws s = (if ws_len s = 0 then s else skip_ws (drop (ws_len s) s))"
  by pat_completeness auto
termination
proof (relation "measure length")
  show "wf (measure length)" by simp
next
  fix s :: string
  assume w: "ws_len s \<noteq> 0"
  then have "s \<noteq> []" by (auto simp: ws_len_def)
  then show "(drop (ws_len s) s, s) \<in> measure length" using w by simp
qed

declare skip_ws.simps [simp del]

text \<open>
  The exponent part after the mantissa: \<open>e\<close> or \<open>E\<close>, an optional sign and at least one
  digit; anything else is not part of the number and counts as exponent 0.
\<close>

definition exponent_part :: "string \<Rightarrow> int" where
  "exponent_part r =
     (case r of
        [] \<Rightarrow> 0
      | c # r1 \<Rightarrow>
          if c = CHR ''e'' \<or> c = CHR ''E'' then
            (case r1 of
               [] \<Rightarrow> 0
             | s # r2 \<Rightarrow>
                 if s = CHR ''-'' then
                   (if takeWhile is_digit r2 = [] then 0 else - digits_val (takeWhile is_digit r2))
                 else if s = CHR ''+'' then
                   digits_val (takeWhile is_digit r2)
                 else digits_val (takeWhile is_digit r1))
          else 0)"

text \<open>
  \<open>parseFloat\<close>: skip leading white space, read the longest prefix that is a decimal
  literal (optional sign, then \<open>Infinity\<close> or digits with an optional fraction and
  exponent), and round its value to the nearest binary64 value; NaN when there is no such
  prefix.
\<close>

definition parseFloat :: "string \<Rightarrow> jsnum" where
  "parseFloat s =
     (let t = skip_ws s;
          neg = (case t of [] \<Rightarrow> False | c # _ \<Rightarrow> c = CHR ''-'');
          u = (case t of [] \<Rightarrow> [] | c # r \<Rightarrow> if c = CHR ''-'' \<or> c = CHR ''+'' then r else t)
      in if take 8 u = ''Infinity'' then (if neg then NegInf else PosInf)
         else
           let ip = takeWhile is_digit u;
               r1 = dropWhile is_digit u;
               fp = (case r1 of [] \<Rightarrow> [] | c # r \<Rightarrow> if c = CHR ''.'' then takeWhile is_digit r else []);
               r2 = (case r1 of [] \<Rightarrow> [] | c # r \<Rightarrow> if c = CHR ''.'' then dropWhile is_digit r else r1)
           in if ip = [] \<and> fp = [] then NaN
              else
                let m = of_int (digits_val (ip @ fp)) * pow10 (exponent_part r2 - int (length fp))
                in rnd (if neg then - m else m))"

text \<open>\<open>s.replace(/[^0-9]/g, '')\<close>: delete every character that is not an ASCII digit.\<close>

definition strip_non_digits :: "string \<Rightarrow> string" where
  "strip_non_digits s = filter is_digit s"

section \<open>The product table\<close>

text \<open>
  A row of the \<open>tube_benders\<close> table as the data layer returns it: \<open>text\<close> columns are
  strings, \<open>decimal\<close> columns arrive as strings, \<open>integer\<close> columns as integers, a column
  without \<open>notNull\<close> may be null (\<open>None\<close>).
\<close>

record min_max =
  price_min :: jsnum
  price_max :: jsnum

record component_pricing =
  frame :: min_max
  hydraulicRam :: min_max
  die :: min_max
  standMount :: min_max

record TubeBender =
  bender_id :: int
  name :: string
  brand :: string
  model :: string
  rating :: string
  priceRange :: string
  priceMin :: "string option"
  priceMax :: "string option"
  componentPricing :: "component_pricing option"
  maxCapacity :: string
  powerType :: string
  bendAngle :: int
  countryOfOrigin :: string
  warranty :: string
  materials :: "string list"
  pros :: "string list"
  cons :: "string list"
  description :: string
  imageUrl :: "string option"
  purchaseUrl :: "string option"
  category :: string
  isRecommended :: "bool option"
  totalCostOfOwnership :: "string option"
  supportQuality :: int
  buildQuality :: int
  valueScore :: int
  features :: "string list"
  mandrelBender :: string
  wallThicknessCapacity :: "string option"
  sBendCapability :: "bool option"
  userReviewRating :: "string option"
  userReviewCount :: "int option"
  importantNotes :: "string list option"

section \<open>The cost calculator route\<close>

subsection \<open>Request validation\<close>

text \<open>
  A request body that is a JSON object: each of the three keys holds a string, or
  (\<open>None\<close>) is absent or holds something that is not a string. Other keys are dropped by
  the schema.
\<close>

record request_body =
  body_usage :: "string option"
  body_material :: "string option"
  body_timeline :: "string option"

text \<open>
  The request body as the route receives it: such an object, or anything else (an array,
  or nothing at all).
\<close>

datatype json_body = NotAnObject | JsonObject request_body

record cost_request =
  usage :: string
  material :: string
  timeline :: string

definition usage_values :: "string list" where
  "usage_values = [''light'', ''medium'', ''heavy'']"

definition material_values :: "string list" where
  "material_values = [''mild-steel'', ''chromoly'', ''aluminum'', ''stainless-steel'']"

definition timeline_values :: "string list" where
  "timeline_values = [''1-2-years'', ''3-5-years'', ''5-plus-years'']"

text \<open>An issue of a validation error: what went wrong and the path of the offending key.\<close>

record zod_issue =
  code :: string
  path :: "string list"

text \<open>\<open>z.enum(values)\<close> applied to the value under one key.\<close>

definition parse_enum :: "string list \<Rightarrow> string \<Rightarrow> string option \<Rightarrow> zod_issue list" where
  "parse_enum values key v =
     (case v of
        None \<Rightarrow> [\<lparr>code = ''invalid_type'', path = [key]\<rparr>]
      | Some s \<Rightarrow> if s \<in> set values then [] else [\<lparr>code = ''invalid_enum_value'', path = [key]\<rparr>])"

text \<open>
  \<open>costCalculationRequestSchema.parse\<close>. What is not an object fails as a whole, with one
  issue whose path is empty. Of an object every key is checked, the issues of all keys are
  collected in the order of the schema, and the parsed request is returned only when there
  is none.
\<close>

fun costCalculationRequestSchema_parse :: "json_body \<Rightarrow> zod_issue list + cost_request" where
  "costCalculationRequestSchema_parse NotAnObject = Inl [\<lparr>code = ''invalid_type'', path = []\<rparr>]"
| "costCalculationRequestSchema_parse (JsonObject body) =
     (let issues = parse_enum usage_values ''usage'' (body_usage body)
                 @ parse_enum material_values ''material'' (body_material body)
                 @ parse_enum timeline_values ''timeline'' (body_timeline body)
      in if issues = []
         then Inr \<lparr>usage = the (body_usage body), material = the (body_material body),
                   timeline = the (body_timeline body)\<rparr>
         else Inl issues)"

declare costCalculationRequestSchema_parse.simps [simp del]

subsection \<open>The calculation\<close>

record calculation =
  calc_id :: int
  calc_name :: string
  calc_brand :: string
  initialCost :: jsnum
  maintenanceCost :: jsnum
  supportCost :: jsnum
  downtimeCost :: jsnum
  totalCost :: jsnum
  calc_countryOfOrigin :: string
  calc_supportQuality :: int
  calc_buildQuality :: int

definition usageMultiplier :: "cost_request \<Rightarrow> jsnum" where
  "usageMultiplier requestData =
     (if usage requestData = ''light'' then lit (1 / 2)
      else if usage requestData = ''medium'' then lit 1 else lit (3 / 2))"

definition timelineMultiplier :: "cost_request \<Rightarrow> jsnum" where
  "timelineMultiplier requestData =
     (if timeline requestData = ''1-2-years'' then lit 1
      else if timeline requestData = ''3-5-years'' then lit 2 else lit 3)"

text \<open>The body of the \<open>map\<close> callback: the cost entry of one product.\<close>

definition calculate :: "cost_request \<Rightarrow> TubeBender \<Rightarrow> calculation" where
  "calculate requestData bender =
     (let initialCost = js_or (parseFloat (strip_non_digits (priceRange bender))) (lit 1000);
          um = usageMultiplier requestData;
          tm = timelineMultiplier requestData;
          maintenanceCost =
            (if countryOfOrigin bender = ''USA''
             then fmul (fmul (fmul initialCost (lit (5 / 100))) um) tm
             else fmul (fmul (fmul initialCost (lit (15 / 100))) um) tm);
          supportCost =
            (if countryOfOrigin bender = ''USA'' then fmul (lit 100) tm else fmul (lit 300) tm);
          downtimeCost =
            (if countryOfOrigin bender = ''USA''
             then fmul (fmul (lit 50) um) tm else fmul (fmul (lit 200) um) tm);
          totalCost = fadd (fadd (fadd initialCost maintenanceCost) supportCost) downtimeCost
      in \<lparr>calc_id = bender_id bender, calc_name = name bender, calc_brand = brand bender,
          initialCost = initialCost, maintenanceCost = maintenanceCost,
          supportCost = supportCost, downtimeCost = downtimeCost, totalCost = totalCost,
          calc_countryOfOrigin = countryOfOrigin bender,
          calc_supportQuality = supportQuality bender,
          calc_buildQuality = buildQuality bender\<rparr>)"

subsection \<open>Sorting\<close>

text \<open>
  \<open>Array.prototype.sort\<close> with a comparator: an element goes before another one exactly
  when the comparator's result on them is negative (a NaN result counts as zero), and
  elements that compare equal keep their order. For a consistent comparator this fixes the
  result; it is computed here by stable insertion, left to right.
\<close>

fun sort_insert :: "('a \<Rightarrow> 'a \<Rightarrow> jsnum) \<Rightarrow> 'a \<Rightarrow> 'a list \<Rightarrow> 'a list" where
  "sort_insert cmp x [] = [x]"
| "sort_insert cmp x (y # ys) =
     (if js_lt (cmp x y) (Finite 0) then x # y # ys else y # sort_insert cmp x ys)"

definition array_sort :: "('a \<Rightarrow> 'a \<Rightarrow> jsnum) \<Rightarrow> 'a list \<Rightarrow> 'a list" where
  "array_sort cmp xs = foldl (\<lambda>acc x. sort_insert cmp x acc) [] xs"

definition by_totalCost :: "calculation \<Rightarrow> calculation \<Rightarrow> jsnum" where
  "by_totalCost a b = fsub (totalCost a) (totalCost b)"

subsection \<open>The handler\<close>

text \<open>Reading an array element: \<open>undefined\<close> (\<open>None\<close>) outside the array.\<close>

definition element :: "'a list \<Rightarrow> int \<Rightarrow> 'a option" where
  "element xs i = (if 0 \<le> i \<and> i < int (length xs) then Some (xs ! nat i) else None)"

datatype js_error = ZodError "zod_issue list" | TypeError | StorageError

record cost_result =
  request :: cost_request
  calculations :: "calculation list"
  bestValue :: "calculation option"
  savings :: jsnum

datatype response =
    Json200 cost_result
  | Json400 string "zod_issue list"
  | Json500 string

text \<open>
  The \<open>try\<close> block. \<open>stored\<close> is what \<open>storage.getTubeBenders()\<close> resolves to, \<open>None\<close> when
  it rejects. Reading \<open>totalCost\<close> of \<open>undefined\<close> throws a \<open>TypeError\<close>.
\<close>

definition cost_calculator_try :: "json_body \<Rightarrow> TubeBender list option \<Rightarrow> js_error + cost_result" where
  "cost_calculator_try body stored =
     (case costCalculationRequestSchema_parse body of
        Inl issues \<Rightarrow> Inl (ZodError issues)
      | Inr requestData \<Rightarrow>
          (case stored of
             None \<Rightarrow> Inl StorageError
           | Some tubeBenders \<Rightarrow>
               let calculations = array_sort by_totalCost (map (calculate requestData) tubeBenders)
               in (case element calculations (int (length calculations) - 1) of
                     None \<Rightarrow> Inl TypeError
                   | Some l \<Rightarrow>
                       (case element calculations 0 of
                          None \<Rightarrow> Inl TypeError
                        | Some f \<Rightarrow>
                            Inr \<lparr>request = requestData, calculations = calculations,
                                 bestValue = element calculations 0,
                                 savings = fsub (totalCost l) (totalCost f)\<rparr>))))"

text \<open>The route: the \<open>try\<close> block and its \<open>catch\<close>.\<close>

definition cost_calculator :: "json_body \<Rightarrow> TubeBender list option \<Rightarrow> response" where
  "cost_calculator body stored =
     (case cost_calculator_try body stored of
        Inr result \<Rightarrow> Json200 result
      | Inl (ZodError issues) \<Rightarrow> Json400 ''Invalid request data'' issues
      | Inl _ \<Rightarrow> Json500 ''Failed to calculate costs'')"

section \<open>The scoring breakdown component\<close>

record score_item =
  criteria :: string
  points :: jsnum
  maxPoints :: jsnum
  reasoning :: string

record ScoredTubeBender =
  product :: TubeBender
  totalScore :: jsnum
  scoreBreakdown :: "score_item list"

text \<open>
  The \<open>try\<close> statement that gives the component its scored product.
  \<open>calculateTubeBenderScore\<close> belongs to another module, \<open>lib/scoring-algorithm\<close>, and is
  not modelled: its outcome on the product is a parameter, \<open>Inr\<close> the scored product it
  returns, \<open>Inl\<close> what it throws. The statement as a whole ends with \<open>Inr\<close> the value of
  \<open>scoredProduct\<close>, or with \<open>Inl\<close> an exception that nothing has caught. What is thrown
  in the \<open>try\<close> block is caught; the \<open>catch\<close> block reads a string field, calls
  \<open>parseFloat\<close> and \<open>Math.round\<close>, multiplies and concatenates, none of which throws.
  The fields the fallback copies from the product with \<open>...product\<close> are kept as the field
  \<open>product\<close>.
\<close>

definition scoredProduct :: "(TubeBender \<Rightarrow> 'e + ScoredTubeBender) \<Rightarrow> TubeBender \<Rightarrow> 'e + ScoredTubeBender" where
  "scoredProduct calculateTubeBenderScore p =
     (case calculateTubeBenderScore p of
        Inr scored \<Rightarrow> Inr scored
      | Inl error \<Rightarrow>
          let baseScore = Math_round (fmul (parseFloat (rating p)) (lit 10))
          in Inr \<lparr>product = p, totalScore = baseScore,
              scoreBreakdown =
                [\<lparr>criteria = ''Overall Rating'', points = baseScore, maxPoints = lit 100,
                  reasoning = ''Based on '' @ rating p @ ''/10 rating''\<rparr>]\<rparr>)"

section \<open>Notions used to state the properties\<close>

text \<open>A value that the enumeration under a key accepts.\<close>

definition valid_field :: "string list \<Rightarrow> string option \<Rightarrow> bool" where
  "valid_field values v = (case v of None \<Rightarrow> False | Some s \<Rightarrow> s \<in> set values)"

definition valid_body :: "request_body \<Rightarrow> bool" where
  "valid_body body =
     (valid_field usage_values (body_usage body) \<and>
      valid_field material_values (body_material body) \<and>
      valid_field timeline_values (body_timeline body))"

text \<open>The keys named by the issues of a validation error.\<close>

definition issue_paths :: "zod_issue list \<Rightarrow> string list set" where
  "issue_paths issues = set (map path issues)"

text \<open>
  The digits of a price text and the integer they denote, written from the description of
  the baseline rather than from the code: the text with everything but the ten digits
  left out, read as a decimal numeral (an empty numeral counting as zero).
\<close>

definition price_digits :: "string \<Rightarrow> string" where
  "price_digits s = [c \<leftarrow> s. c \<in> set ''0123456789'']"

text \<open>The value of a digit is its place in the row of the ten digits.\<close>

definition numeral_digit :: "char \<Rightarrow> int" where
  "numeral_digit c = int (length (takeWhile (\<lambda>d. d \<noteq> c) ''0123456789''))"

fun decimal_rev :: "string \<Rightarrow> int" where
  "decimal_rev [] = 0"
| "decimal_rev (c # cs) = numeral_digit c + 10 * decimal_rev cs"

definition decimal_value :: "string \<Rightarrow> int" where
  "decimal_value s = decimal_rev (rev s)"


text \<open>
  Bookkeeping for a computation that is followed step by step: a finite value within the
  relative distance \<open>a\<close> of the exact positive value \<open>x\<close>, and a computed number that
  is such a value or has overflowed, the exact value being \<open>2^l\<close> or more.
\<close>

definition near :: "rat \<Rightarrow> rat \<Rightarrow> rat \<Rightarrow> bool" where
  "near a x v = (0 < x \<and> (1 - a) * x \<le> v \<and> v \<le> (1 + a) * x)"

definition track :: "rat \<Rightarrow> int \<Rightarrow> rat \<Rightarrow> jsnum \<Rightarrow> bool" where
  "track a l x y =
     (case y of
        Finite v \<Rightarrow> near a x v
      | PosInf \<Rightarrow> 0 < x \<and> pow2 l \<le> x
      | _ \<Rightarrow> False)"

text \<open>The five cost figures of an entry.\<close>

definition cost_figures :: "calculation \<Rightarrow> jsnum \<times> jsnum \<times> jsnum \<times> jsnum \<times> jsnum" where
  "cost_figures c = (initialCost c, maintenanceCost c, supportCost c, downtimeCost c, totalCost c)"

text \<open>What a response carries besides the echoed request.\<close>

datatype outcome =
    Computed "calculation list" "calculation option" jsnum
  | Rejected "zod_issue list"
  | Failed string

fun outcome_of :: "response \<Rightarrow> outcome" where
  "outcome_of (Json200 r) = Computed (calculations r) (bestValue r) (savings r)"
| "outcome_of (Json400 m issues) = Rejected issues"
| "outcome_of (Json500 m) = Failed m"

text \<open>A number that is not NaN and not negative.\<close>

definition nonneg :: "jsnum \<Rightarrow> bool" where
  "nonneg x = js_le (Finite 0) x"

text \<open>
  A finite value on the grid of the smallest binary64 spacing, \<open>2^-1074\<close>; every result
  of rounding is one. A number is \<open>comparable\<close> when it is such a value or plus infinity.
\<close>

definition on_grid :: "rat \<Rightarrow> bool" where
  "on_grid y = (y / pow2 (- 1074) = of_int \<lfloor>y / pow2 (- 1074)\<rfloor>)"

definition comparable :: "jsnum \<Rightarrow> bool" where
  "comparable x = (case x of PosInf \<Rightarrow> True | Finite y \<Rightarrow> on_grid y | _ \<Rightarrow> False)"

text \<open>Ascending order of the totals, and the entries with a given total.\<close>

definition ascending :: "calculation list \<Rightarrow> bool" where
  "ascending cs = sorted_wrt (\<lambda>a b. js_le (totalCost a) (totalCost b)) cs"

definition with_total :: "jsnum \<Rightarrow> calculation list \<Rightarrow> calculation list" where
  "with_total k cs = filter (\<lambda>c. totalCost c = k) cs"

text \<open>A price text of 309 nines: the number it denotes is beyond the binary64 range.\<close>

definition huge_price :: string where
  "huge_price = ''999999999999999999999999999999999999999999999999999999999999999999999999999999999999999999999999999999999999999999999999999999999999999999999999999999999999999999999999999999999999999999999999999999999999999999999999999999999999999999999999999999999999999999999999999999999999999999999999999999999999999999999''"

text \<open>A catalogue row with the given price text, origin and rating; used for concrete instances.\<close>

definition bender :: "string \<Rightarrow> string \<Rightarrow> string \<Rightarrow> TubeBender" where
  "bender price origin rate =
     \<lparr>bender_id = 1, name = ''Bender'', brand = ''Brand'', model = ''M1'', rating = rate,
      priceRange = price, priceMin = None, priceMax = None, componentPricing = None,
      maxCapacity = ''2 in'', powerType = ''Manual'', bendAngle = 180,
      countryOfOrigin = origin, warranty = ''1 year'', materials = [], pros = [], cons = [],
      description = [], imageUrl = None, purchaseUrl = None, category = ''professional'',
      isRecommended = None, totalCostOfOwnership = None, supportQuality = 9,
      buildQuality = 9, valueScore = 8, features = [], mandrelBender = ''No'',
      wallThicknessCapacity = None, sBendCapability = None, userReviewRating = None,
      userReviewCount = None, importantNotes = None\<rparr>"

definition body_of :: "string \<Rightarrow> string \<Rightarrow> string \<Rightarrow> request_body" where
  "body_of u m t = \<lparr>body_usage = Some u, body_material = Some m, body_timeline = Some t\<rparr>"

section \<open>Properties of the number model\<close>

lemma pow2_powi: "pow2 k = 2 powi k"
proof (cases "0 \<le> k")
  case True
  then show ?thesis by (simp add: pow2_def power_int_def)
next
  case False
  then show ?thesis by (simp add: pow2_def power_int_def inverse_eq_divide power_one_over)
qed

lemma pow2_pos: "0 < pow2 k"
  by (simp add: pow2_powi zero_less_power_int)

lemma pow2_add: "pow2 (a + b) = pow2 a * pow2 b"
  by (simp add: pow2_powi power_int_add)

lemma pow2_diff: "pow2 (a - b) = pow2 a / pow2 b"
  by (simp add: pow2_powi power_int_diff)

lemma pow2_mono: "a \<le> b \<Longrightarrow> pow2 a \<le> pow2 b"
  by (simp add: pow2_powi power_int_increasing)

lemma pow2_strict_mono: "a < b \<Longrightarrow> pow2 a < pow2 b"
  by (simp add: pow2_powi power_int_strict_increasing)

lemma pow2_less_iff: "pow2 a < pow2 b \<longleftrightarrow> a < b"
  using pow2_strict_mono [of a b] pow2_mono [of b a] by (cases "a < b") auto

lemma pow2_le_iff: "pow2 a \<le> pow2 b \<longleftrightarrow> a \<le> b"
  using pow2_strict_mono [of b a] pow2_mono [of a b] by (cases "a \<le> b") auto

lemma pow2_nat: "0 \<le> k \<Longrightarrow> pow2 k = 2 ^ nat k"
  by (simp add: pow2_def)

lemma pow2_0: "pow2 0 = 1"
  by (simp add: pow2_def)

lemma flog2_bounds:
  assumes "0 < x"
  shows "pow2 (flog2 x) \<le> x" and "x < pow2 (flog2 x + 1)"
proof -
  have "pow2 (flog2 x) \<le> x \<and> x < pow2 (flog2 x + 1)"
  proof (cases "1 \<le> x")
    case True
    define a where "a = \<lfloor>x\<rfloor>"
    have a1: "1 \<le> a" using True by (simp add: a_def le_floor_iff)
    then have b: "2 ^ nat (bitlen a - 1) \<le> a" "a < 2 ^ nat (bitlen a)"
      using bitlen_bounds [of a] by auto
    have bl: "1 \<le> bitlen a" using a1 bitlen_eq_zero_iff [of a] bitlen_nonneg [of a] by linarith
    have fl: "flog2 x = bitlen a - 1" using True by (simp add: flog2_def a_def)
    have "(of_int (2 ^ nat (bitlen a - 1)) :: rat) \<le> of_int a"
      using b(1) of_int_le_iff by blast
    then have l0: "(2::rat) ^ nat (bitlen a - 1) \<le> of_int a" by simp
    have "pow2 (bitlen a - 1) = 2 ^ nat (bitlen a - 1)" using bl by (simp add: pow2_nat)
    also note l0
    also have "of_int a \<le> x" unfolding a_def by (rule of_int_floor_le)
    finally have l: "pow2 (bitlen a - 1) \<le> x" .
    have "a + 1 \<le> 2 ^ nat (bitlen a)" using b(2) by simp
    then have "(of_int (a + 1) :: rat) \<le> of_int (2 ^ nat (bitlen a))"
      using of_int_le_iff by blast
    moreover have "x < of_int (a + 1)" unfolding a_def using floor_correct [of x] by simp
    ultimately have "x < of_int (2 ^ nat (bitlen a))" by linarith
    then have u: "x < pow2 (bitlen a - 1 + 1)"
      using bl by (simp add: pow2_nat)
    show ?thesis using l u fl by simp
  next
    case False
    define y where "y = 1 / x"
    define m where "m = \<lceil>y\<rceil> - 1"
    have y1: "1 < y" using False assms by (simp add: y_def)
    have xy: "x = 1 / y" by (simp add: y_def)
    have m1: "1 \<le> m" using y1 by (simp add: m_def less_ceiling_iff)
    have my: "of_int m < y" "y \<le> of_int (m + 1)"
      using ceiling_correct [of y] by (simp_all add: m_def)
    have b: "2 ^ nat (bitlen m - 1) \<le> m" "m < 2 ^ nat (bitlen m)"
      using bitlen_bounds [of m] m1 by auto
    have bl: "1 \<le> bitlen m" using m1 bitlen_eq_zero_iff [of m] bitlen_nonneg [of m] by linarith
    have fl: "flog2 x = - bitlen m" using False by (simp add: flog2_def m_def y_def)
    have "m + 1 \<le> 2 ^ nat (bitlen m)" using b(2) by simp
    then have "(of_int (m + 1) :: rat) \<le> of_int (2 ^ nat (bitlen m))"
      using of_int_le_iff by blast
    then have "(of_int (m + 1) :: rat) \<le> 2 ^ nat (bitlen m)" by simp
    with my(2) have yu: "y \<le> 2 ^ nat (bitlen m)" by (rule order_trans)
    have "(of_int (2 ^ nat (bitlen m - 1)) :: rat) \<le> of_int m"
      using b(1) of_int_le_iff by blast
    then have "(2::rat) ^ nat (bitlen m - 1) \<le> of_int m" by simp
    then have yl: "2 ^ nat (bitlen m - 1) < y" using my(1) by (rule le_less_trans)
    have p1: "pow2 (- bitlen m) = 1 / 2 ^ nat (bitlen m)"
      using bl by (simp add: pow2_def)
    have p2: "pow2 (- bitlen m + 1) = 1 / 2 ^ nat (bitlen m - 1)"
    proof (cases "bitlen m = 1")
      case True
      then show ?thesis by (simp add: pow2_def)
    next
      case False
      then have "- bitlen m + 1 < 0" using bl by simp
      moreover have "- (- bitlen m + 1) = bitlen m - 1" by simp
      ultimately show ?thesis by (simp add: pow2_def)
    qed
    have l: "pow2 (- bitlen m) \<le> x"
      unfolding p1 xy using yu y1 by (simp add: frac_le)
    have u: "x < pow2 (- bitlen m + 1)"
      unfolding p2 xy using yl y1 by (simp add: frac_less2)
    show ?thesis using l u fl by simp
  qed
  then show "pow2 (flog2 x) \<le> x" and "x < pow2 (flog2 x + 1)" by auto
qed

lemma flog2_unique:
  assumes "0 < x" "pow2 e \<le> x" "x < pow2 (e + 1)"
  shows "flog2 x = e"
proof -
  have "pow2 e < pow2 (flog2 x + 1)" using assms(2) flog2_bounds(2) [OF assms(1)] by simp
  then have 1: "e \<le> flog2 x" by (simp add: pow2_less_iff)
  have "pow2 (flog2 x) < pow2 (e + 1)" using assms(3) flog2_bounds(1) [OF assms(1)] by simp
  then have 2: "flog2 x \<le> e" by (simp add: pow2_less_iff)
  from 1 2 show ?thesis by simp
qed

lemma rne_bounds: "\<bar>of_int (rne x) - x\<bar> \<le> 1 / 2"
proof -
  have "of_int \<lfloor>x\<rfloor> \<le> x" "x < of_int \<lfloor>x\<rfloor> + 1" using floor_correct [of x] by simp_all
  then show ?thesis by (auto simp: rne_def Let_def abs_le_iff)
qed

lemma rne_unique: "\<bar>x - of_int n\<bar> < 1 / 2 \<Longrightarrow> rne x = n"
proof -
  assume a: "\<bar>x - of_int n\<bar> < 1 / 2"
  have b: "\<bar>of_int (rne x) - x\<bar> \<le> 1 / 2" by (rule rne_bounds)
  have "\<bar>(of_int (rne x) :: rat) - of_int n\<bar> < 1" using a b by linarith
  then have "\<bar>(of_int (rne x - n) :: rat)\<bar> < 1" by simp
  then have "\<bar>rne x - n\<bar> < 1" by (metis of_int_abs of_int_less_1_iff)
  then show ?thesis by simp
qed

lemma rne_of_int: "rne (of_int n) = n"
  by (rule rne_unique) simp

lemma rne_nonneg: "0 \<le> x \<Longrightarrow> 0 \<le> rne x"
  by (auto simp: rne_def Let_def)

lemma rne_ge_1: "1 \<le> x \<Longrightarrow> 1 \<le> rne x"
proof -
  assume "1 \<le> x"
  then have "1 \<le> \<lfloor>x\<rfloor>" by (simp add: le_floor_iff)
  then show ?thesis by (auto simp: rne_def Let_def)
qed

lemma rnd_pos_unfold:
  assumes "0 < x"
  shows "rnd x = (let q = pow2 (max (flog2 x) (- 1022) - 52); y = of_int (rne (x / q)) * q
                  in if pow2 1024 \<le> y then PosInf else Finite y)"
  using assms by (simp add: rnd_def Let_def)

lemma rnd_neg: "rnd (- x) = fneg (rnd x)"
proof (cases "x = 0")
  case True
  then show ?thesis by (simp add: rnd_def)
next
  case False
  then show ?thesis by (auto simp: rnd_def Let_def sgn_if)
qed

lemma rnd_pos_cases:
  assumes "0 < x"
  obtains (inf) "rnd x = PosInf"
  | (fin) y where "rnd x = Finite y" "0 \<le> y"
      "\<bar>y - x\<bar> \<le> pow2 (max (flog2 x) (- 1022) - 53)"
      "\<exists>k. y = of_int k * pow2 (- 1074)"
      "pow2 (- 1074) \<le> x \<Longrightarrow> 0 < y"
proof -
  define e where "e = max (flog2 x) (- 1022)"
  define q where "q = pow2 (e - 52)"
  define n where "n = rne (x / q)"
  define y where "y = of_int n * q"
  have q0: "0 < q" by (simp add: q_def pow2_pos)
  have r: "rnd x = (if pow2 1024 \<le> y then PosInf else Finite y)"
    using assms by (simp add: rnd_pos_unfold Let_def e_def q_def n_def y_def)
  have n0: "0 \<le> n" unfolding n_def using assms q0 by (intro rne_nonneg) simp
  have y0: "0 \<le> y" using n0 q0 by (simp add: y_def)
  have "\<bar>of_int n - x / q\<bar> \<le> 1 / 2" unfolding n_def by (rule rne_bounds)
  then have "\<bar>of_int n - x / q\<bar> * q \<le> 1 / 2 * q" using q0 by (simp add: mult_right_mono)
  moreover have "\<bar>of_int n - x / q\<bar> * q = \<bar>y - x\<bar>"
  proof -
    have "\<bar>of_int n - x / q\<bar> * q = \<bar>(of_int n - x / q) * q\<bar>" using q0 by (simp add: abs_mult)
    also have "(of_int n - x / q) * q = y - x" using q0 by (simp add: y_def algebra_simps)
    finally show ?thesis .
  qed
  moreover have "1 / 2 * q = pow2 (e - 53)"
  proof -
    have "pow2 (e - 52) = pow2 ((e - 53) + 1)" by simp
    also have "\<dots> = pow2 (e - 53) * pow2 1" by (simp only: pow2_add)
    finally show ?thesis by (simp add: q_def pow2_def)
  qed
  ultimately have err: "\<bar>y - x\<bar> \<le> pow2 (e - 53)" by simp
  have grid: "\<exists>k. y = of_int k * pow2 (- 1074)"
  proof -
    have e1: "- 1022 \<le> e" by (simp add: e_def)
    have "pow2 (e - 52) = pow2 ((e + 1022) + (- 1074))" by simp
    also have "\<dots> = pow2 (e + 1022) * pow2 (- 1074)" by (simp only: pow2_add)
    also have "pow2 (e + 1022) = of_int (2 ^ nat (e + 1022))" using e1 by (simp add: pow2_nat)
    finally have "y = of_int (n * 2 ^ nat (e + 1022)) * pow2 (- 1074)"
      by (simp add: y_def q_def)
    then show ?thesis by blast
  qed
  have pos: "0 < y" if "pow2 (- 1074) \<le> x"
  proof -
    have "q \<le> x"
    proof (cases "flog2 x \<le> - 1022")
      case True
      then have "e = - 1022" by (simp add: e_def)
      then show ?thesis using that by (simp add: q_def)
    next
      case False
      then have "e = flog2 x" by (simp add: e_def)
      then have "q \<le> pow2 (flog2 x)" unfolding q_def by (intro pow2_mono) simp
      then show ?thesis using flog2_bounds(1) [OF assms] by simp
    qed
    then have "1 \<le> x / q" using q0 by (simp add: le_divide_eq)
    then have "1 \<le> n" unfolding n_def by (rule rne_ge_1)
    then show ?thesis using q0 by (simp add: y_def)
  qed
  show thesis
  proof (cases "pow2 1024 \<le> y")
    case True
    then show ?thesis using r inf by simp
  next
    case False
    then have "rnd x = Finite y" using r by simp
    then show ?thesis using fin [of y] y0 err grid pos by (simp add: e_def)
  qed
qed

lemma rnd_0: "rnd 0 = Finite 0"
  by (simp add: rnd_def)

lemma rnd_nonneg: "0 \<le> x \<Longrightarrow> rnd x = PosInf \<or> (\<exists>y. rnd x = Finite y \<and> 0 \<le> y)"
proof (cases "x = 0")
  case True
  then show ?thesis by (simp add: rnd_0)
next
  case False
  assume "0 \<le> x"
  with False have "0 < x" by simp
  then show ?thesis by (cases x rule: rnd_pos_cases) auto
qed

lemma rnd_pos: "pow2 (- 1074) \<le> x \<Longrightarrow> rnd x = PosInf \<or> (\<exists>y. rnd x = Finite y \<and> 0 < y)"
proof -
  assume a: "pow2 (- 1074) \<le> x"
  then have "0 < x" using pow2_pos [of "- 1074"] by linarith
  then show ?thesis using a by (cases x rule: rnd_pos_cases) auto
qed

lemma rnd_grid: "rnd x = Finite y \<Longrightarrow> \<exists>k. y = of_int k * pow2 (- 1074)"
proof -
  assume r: "rnd x = Finite y"
  consider "x = 0" | "0 < x" | "0 < - x" by linarith
  then show ?thesis
  proof cases
    case 1
    then have "y = of_int 0 * pow2 (- 1074)" using r by (simp add: rnd_0)
    then show ?thesis by blast
  next
    case 2
    then show ?thesis using r by (cases x rule: rnd_pos_cases) auto
  next
    case 3
    have "rnd (- x) = Finite (- y)" using r by (simp add: rnd_neg)
    with 3 obtain k where "- y = of_int k * pow2 (- 1074)"
      by (cases "- x" rule: rnd_pos_cases) auto
    then have "y = of_int (- k) * pow2 (- 1074)" by simp
    then show ?thesis by blast
  qed
qed

lemma rnd_rel_err:
  assumes "pow2 (- 1022) \<le> x" "rnd x = Finite y"
  shows "\<bar>y - x\<bar> \<le> x * pow2 (- 53)"
proof -
  have x0: "0 < x" using assms(1) pow2_pos [of "- 1022"] by linarith
  have "pow2 (- 1022) < pow2 (flog2 x + 1)" using assms(1) flog2_bounds(2) [OF x0] by simp
  then have "- 1022 \<le> flog2 x" by (simp add: pow2_less_iff)
  then have m: "max (flog2 x) (- 1022) = flog2 x" by simp
  from x0 assms(2) have "\<bar>y - x\<bar> \<le> pow2 (flog2 x - 53)"
    by (cases x rule: rnd_pos_cases) (auto simp: m)
  also have "pow2 (flog2 x - 53) = pow2 (flog2 x) * pow2 (- 53)"
    using pow2_add [of "flog2 x" "- 53"] by simp
  also have "\<dots> \<le> x * pow2 (- 53)"
    using flog2_bounds(1) [OF x0] pow2_pos [of "- 53"] by (simp add: mult_right_mono)
  finally show ?thesis .
qed

lemma rnd_cert:
  assumes "0 < x" "- 1022 \<le> e" "pow2 e \<le> x" "x < pow2 (e + 1)"
    and "\<bar>x / pow2 (e - 52) - of_int n\<bar> < 1 / 2"
    and "of_int n * pow2 (e - 52) < pow2 1024"
  shows "rnd x = Finite (of_int n * pow2 (e - 52))"
proof -
  have f: "flog2 x = e" using assms(1,3,4) by (rule flog2_unique)
  have m: "max (flog2 x) (- 1022) = e" using f assms(2) by simp
  have r: "rne (x / pow2 (e - 52)) = n" using assms(5) by (rule rne_unique)
  show ?thesis using assms(1,6) by (simp add: rnd_pos_unfold m r Let_def)
qed

lemma rnd_overflow:
  assumes "pow2 1024 \<le> x"
  shows "rnd x = PosInf"
proof -
  have x0: "0 < x" using assms pow2_pos [of 1024] by linarith
  have "pow2 1024 < pow2 (flog2 x + 1)" using assms flog2_bounds(2) [OF x0] by simp
  then have e: "1024 \<le> flog2 x" by (simp add: pow2_less_iff)
  then have m: "max (flog2 x) (- 1022) = flog2 x" by simp
  define q where "q = pow2 (flog2 x - 52)"
  have q0: "0 < q" by (simp add: q_def pow2_pos)
  have "pow2 (flog2 x) = pow2 52 * q" using pow2_add [of 52 "flog2 x - 52"] by (simp add: q_def)
  then have "pow2 52 * q \<le> x" using flog2_bounds(1) [OF x0] by simp
  then have "pow2 52 \<le> x / q" using q0 by (simp add: le_divide_eq)
  moreover have "pow2 52 = of_int (2 ^ 52)" by (simp add: pow2_def)
  ultimately have "(of_int (2 ^ 52) :: rat) - 1 / 2 \<le> of_int (rne (x / q))"
    using rne_bounds [of "x / q"] by (simp only: abs_le_iff) linarith
  then have "(of_int (2 ^ 52) :: rat) \<le> of_int (rne (x / q))"
  proof -
    assume a: "(of_int (2 ^ 52) :: rat) - 1 / 2 \<le> of_int (rne (x / q))"
    have "(of_int (2 ^ 52 - 1) :: rat) < of_int (rne (x / q))" using a by simp
    then have "2 ^ 52 - 1 < rne (x / q)" by (simp only: of_int_less_iff)
    then have "2 ^ 52 \<le> rne (x / q)" by simp
    then show ?thesis by (simp only: of_int_le_iff)
  qed
  then have "of_int (2 ^ 52) * q \<le> of_int (rne (x / q)) * q" using q0 by (simp only: mult_right_mono less_imp_le)
  moreover have "of_int (2 ^ 52) * q = pow2 (flog2 x)"
    using pow2_add [of 52 "flog2 x - 52"] by (simp add: q_def pow2_def)
  moreover have "pow2 1024 \<le> pow2 (flog2 x)" using e by (rule pow2_mono)
  ultimately have "pow2 1024 \<le> of_int (rne (x / q)) * q" by linarith
  then show ?thesis using x0 by (simp add: rnd_pos_unfold m Let_def q_def)
qed

lemma rnd_int_exact:
  assumes "0 \<le> n" "n < 2 ^ 53"
  shows "rnd (of_int n) = Finite (of_int n)"
proof (cases "n = 0")
  case True
  then show ?thesis by (simp add: rnd_0)
next
  case False
  define x :: rat where "x = of_int n"
  have x0: "0 < x" using assms(1) False by (simp add: x_def)
  define e where "e = flog2 x"
  have lo: "pow2 e \<le> x" and hi: "x < pow2 (e + 1)"
    using flog2_bounds [OF x0] by (simp_all add: e_def)
  have "x < pow2 53" using assms(2) by (simp add: x_def pow2_def)
  with lo have "pow2 e < pow2 53" by linarith
  then have e53: "e \<le> 52" by (simp add: pow2_less_iff)
  have "1 \<le> x" using assms(1) False by (simp add: x_def)
  with hi have "pow2 0 < pow2 (e + 1)" by (simp add: pow2_0)
  then have e0: "0 \<le> e" by (simp add: pow2_less_iff)
  have q: "pow2 (e - 52) = 1 / 2 ^ nat (52 - e)"
  proof (cases "e = 52")
    case True
    then show ?thesis by (simp add: pow2_def)
  next
    case False
    then have "e - 52 < 0" using e53 by simp
    moreover have "- (e - 52) = 52 - e" by simp
    ultimately show ?thesis by (simp add: pow2_def)
  qed
  have d: "x / pow2 (e - 52) = of_int (n * 2 ^ nat (52 - e))"
    by (simp add: q x_def)
  have bk: "of_int (n * 2 ^ nat (52 - e)) * pow2 (e - 52) = x"
    by (simp add: q x_def)
  have "rnd x = Finite (of_int (n * 2 ^ nat (52 - e)) * pow2 (e - 52))"
  proof (rule rnd_cert [OF x0 _ lo hi])
    show "- 1022 \<le> e" using e0 by simp
    show "\<bar>x / pow2 (e - 52) - of_int (n * 2 ^ nat (52 - e))\<bar> < 1 / 2"
      unfolding d by simp
    have "x < pow2 1024" using \<open>x < pow2 53\<close> pow2_strict_mono [of 53 1024] by simp
    then show "of_int (n * 2 ^ nat (52 - e)) * pow2 (e - 52) < pow2 1024"
      by (simp only: bk)
  qed
  then show ?thesis by (simp only: bk) (simp add: x_def)
qed

section \<open>Following the rounding errors\<close>

lemma rnd_inf_large:
  assumes "rnd x = PosInf"
  shows "pow2 1023 \<le> x"
proof (rule ccontr)
  assume "\<not> pow2 1023 \<le> x"
  then have lt: "x < pow2 1023" by simp
  have x0: "0 < x"
  proof (rule ccontr)
    assume "\<not> 0 < x"
    then have "x = 0 \<or> 0 < - x" by linarith
    then show False
    proof
      assume "x = 0"
      then show False using assms by (simp add: rnd_0)
    next
      assume n: "0 < - x"
      have "rnd (- x) = NegInf" using assms by (simp add: rnd_neg)
      with n show False by (cases rule: rnd_pos_cases) auto
    qed
  qed
  define e where "e = max (flog2 x) (- 1022)"
  define q where "q = pow2 (e - 52)"
  define y where "y = of_int (rne (x / q)) * q"
  have q0: "0 < q" by (simp add: q_def pow2_pos)
  have "pow2 (flog2 x) < pow2 1023" using flog2_bounds(1) [OF x0] lt by linarith
  then have "flog2 x < 1023" by (simp add: pow2_less_iff)
  then have e: "e \<le> 1022" by (simp add: e_def)
  have "\<bar>of_int (rne (x / q)) - x / q\<bar> \<le> (1 / 2 :: rat)" by (rule rne_bounds)
  then have "of_int (rne (x / q)) - x / q \<le> 1 / 2" by (rule abs_le_D1)
  then have "(of_int (rne (x / q)) - x / q) * q \<le> 1 / 2 * q"
    using q0 by (simp only: mult_le_cancel_right_pos)
  moreover have "(of_int (rne (x / q)) - x / q) * q = y - x"
    using q0 by (simp add: y_def algebra_simps)
  ultimately have yx: "y \<le> x + 1 / 2 * q" by simp
  have "q \<le> pow2 (1022 - 52)" unfolding q_def using e by (intro pow2_mono) simp
  also have "pow2 (1022 - 52) = pow2 970" by simp
  finally have "q \<le> pow2 970" .
  moreover have "pow2 1023 + 1 / 2 * pow2 970 < pow2 1024" by (simp add: pow2_def)
  ultimately have "y < pow2 1024" using yx lt by linarith
  then have "rnd x = Finite y"
    using x0 by (simp add: rnd_pos_unfold Let_def e_def [symmetric] q_def [symmetric] y_def [symmetric])
  then show False using assms by simp
qed

lemma nearI: "0 < x \<Longrightarrow> (1 - a) * x \<le> v \<Longrightarrow> v \<le> (1 + a) * x \<Longrightarrow> near a x v"
  by (simp add: near_def)

lemma near_refl: "0 < x \<Longrightarrow> near 0 x x"
  by (simp add: near_def)

lemma near_mono:
  assumes "near a x v" "a \<le> b"
  shows "near b x v"
proof -
  have x: "0 < x" and l: "(1 - a) * x \<le> v" and u: "v \<le> (1 + a) * x"
    using assms(1) by (simp_all add: near_def)
  have "(1 - b) * x \<le> (1 - a) * x" using assms(2) x by (intro mult_right_mono) simp_all
  moreover have "(1 + a) * x \<le> (1 + b) * x" using assms(2) x by (intro mult_right_mono) simp_all
  ultimately show ?thesis using x l u by (intro nearI) linarith+
qed

lemma near_mult:
  assumes "near a x v" "0 < c"
  shows "near a (x * c) (v * c)"
proof -
  have x: "0 < x" and l: "(1 - a) * x \<le> v" and u: "v \<le> (1 + a) * x"
    using assms(1) by (simp_all add: near_def)
  have "(1 - a) * x * c \<le> v * c" using l assms(2) by (intro mult_right_mono) simp_all
  moreover have "v * c \<le> (1 + a) * x * c" using u assms(2) by (intro mult_right_mono) simp_all
  moreover have "0 < x * c" using x assms(2) by simp
  ultimately show ?thesis by (simp add: near_def mult.assoc)
qed


lemma near_lower: "near a x v \<Longrightarrow> a \<le> 1 / 2 \<Longrightarrow> x / 2 \<le> v"
proof -
  assume n: "near a x v" and a: "a \<le> 1 / 2"
  have x: "0 < x" and l: "(1 - a) * x \<le> v" using n by (simp_all add: near_def)
  have "(1 / 2) * x \<le> (1 - a) * x" using a x by (intro mult_right_mono) simp_all
  then show ?thesis using l by simp
qed

lemma near_upper: "near a x v \<Longrightarrow> a \<le> 1 \<Longrightarrow> v \<le> 2 * x"
proof -
  assume n: "near a x v" and a: "a \<le> 1"
  have x: "0 < x" and u: "v \<le> (1 + a) * x" using n by (simp_all add: near_def)
  have "(1 + a) * x \<le> 2 * x" using a x by (intro mult_right_mono) simp_all
  then show ?thesis using u by simp
qed

lemma near_rnd:
  assumes "near a x v" "0 \<le> a" "a \<le> 1 / 10 ^ 15" "pow2 (- 1022) \<le> v" "rnd v = Finite w"
  shows "near (a + 12 / 10 ^ 17) x w"
proof -
  have x: "0 < x" and l: "(1 - a) * x \<le> v" and u: "v \<le> (1 + a) * x"
    using assms(1) by (simp_all add: near_def)
  have v0: "0 < v" using assms(4) pow2_pos [of "- 1022"] by linarith
  define d :: rat where "d = pow2 (- 53)"
  have d: "0 < d" "d \<le> 112 / 10 ^ 18" by (simp_all add: d_def pow2_def)
  have "\<bar>w - v\<bar> \<le> v * d" unfolding d_def using assms(4,5) by (rule rnd_rel_err)
  then have wl: "v - v * d \<le> w" and wu: "w \<le> v + v * d" by linarith+
  have "v * d \<le> (1 + a) * x * d" using u d(1) by (intro mult_right_mono) simp_all
  then have up: "w \<le> (1 + a) * x + (1 + a) * x * d" using wu u by linarith
  have k1: "(1 + a) + (1 + a) * d \<le> 1 + (a + 12 / 10 ^ 17)"
  proof -
    have "(1 + a) * d \<le> (1 + 1 / 10 ^ 15) * d"
      using assms(3) d(1) by (intro mult_right_mono) simp_all
    also have "\<dots> \<le> (1 + 1 / 10 ^ 15) * (112 / 10 ^ 18)"
      using d(2) by (intro mult_left_mono) simp_all
    also have "\<dots> \<le> 12 / 10 ^ 17" by simp
    finally show ?thesis by simp
  qed
  have "(1 + a) * x + (1 + a) * x * d = ((1 + a) + (1 + a) * d) * x" by (simp add: algebra_simps)
  also have "\<dots> \<le> (1 + (a + 12 / 10 ^ 17)) * x" using k1 x by (intro mult_right_mono) simp_all
  finally have upper: "w \<le> (1 + (a + 12 / 10 ^ 17)) * x" using up by linarith
  have a1: "0 \<le> 1 - a" using assms(3) by (simp add: field_simps) 
  have "v * (1 - d) \<le> w" using wl by (simp add: algebra_simps)
  moreover have "(1 - a) * x * (1 - d) \<le> v * (1 - d)"
    using l d(2) by (intro mult_right_mono) simp_all
  ultimately have lo: "(1 - a) * x * (1 - d) \<le> w" by linarith
  have k2: "1 - (a + 12 / 10 ^ 17) \<le> (1 - a) * (1 - d)"
  proof -
    have "(1 - a) * d \<le> 1 * d" using assms(2) d(1) by (intro mult_right_mono) simp_all
    then have "(1 - a) * d \<le> 12 / 10 ^ 17" using d(2) by simp
    moreover have "(1 - a) * (1 - d) = (1 - a) - (1 - a) * d" by (simp add: algebra_simps)
    ultimately show ?thesis by linarith
  qed
  have "(1 - (a + 12 / 10 ^ 17)) * x \<le> (1 - a) * (1 - d) * x"
    using k2 x by (intro mult_right_mono) simp_all
  also have "\<dots> = (1 - a) * x * (1 - d)" by (simp add: algebra_simps)
  finally have lower: "(1 - (a + 12 / 10 ^ 17)) * x \<le> w" using lo by linarith
  show ?thesis using x lower upper by (rule nearI)
qed

lemma track_Finite: "track a l x (Finite v) \<longleftrightarrow> near a x v"
  by (simp add: track_def)

lemma track_PosInf: "track a l x PosInf \<longleftrightarrow> 0 < x \<and> pow2 l \<le> x"
  by (simp add: track_def)

lemma track_cases:
  assumes "track a l x y"
  obtains (fin) v where "y = Finite v" "near a x v" | (inf) "y = PosInf" "0 < x" "pow2 l \<le> x"
  using assms by (cases y) (auto simp: track_def)

lemma track_weaken:
  assumes "track a l x y" "a \<le> b" "m \<le> l"
  shows "track b m x y"
  using assms(1)
proof (cases rule: track_cases)
  case (fin v)
  then show ?thesis using assms(2) by (simp add: track_Finite near_mono)
next
  case inf
  have "pow2 m \<le> pow2 l" using assms(3) by (rule pow2_mono)
  then show ?thesis using inf by (simp add: track_PosInf)
qed

lemma track_rnd:
  assumes "near a x v" "0 \<le> a" "a \<le> 1 / 10 ^ 15" "pow2 (- 1022) \<le> v"
  shows "track (a + 12 / 10 ^ 17) 1022 x (rnd v)"
proof -
  have x: "0 < x" using assms(1) by (simp add: near_def)
  have "pow2 (- 1074) \<le> pow2 (- 1022)" by (rule pow2_mono) simp
  then have "pow2 (- 1074) \<le> v" using assms(4) by linarith
  then consider "rnd v = PosInf" | w where "rnd v = Finite w"
    using rnd_pos [of v] by blast
  then show ?thesis
  proof cases
    case 1
    then have "pow2 1023 \<le> v" by (rule rnd_inf_large)
    moreover have "v \<le> 2 * x" using assms(1) by (rule near_upper) (use assms(3) in simp)
    moreover have "pow2 1023 = 2 * pow2 1022" using pow2_add [of 1 1022] by (simp add: pow2_def)
    ultimately have "pow2 1022 \<le> x" by linarith
    then show ?thesis using 1 x by (simp add: track_PosInf)
  next
    case 2
    then show ?thesis using near_rnd [OF assms 2] by (simp add: track_Finite)
  qed
qed

lemma track_fmul:
  assumes "track a l x y" "0 \<le> a" "a \<le> 1 / 10 ^ 15" "1 / 2 \<le> c" "l \<le> 1022"
    and "1 / 10 ^ 5 \<le> x * c"
  shows "track (a + 12 / 10 ^ 17) (l - 1) (x * c) (fmul y (Finite c))"
  using assms(1)
proof (cases rule: track_cases)
  case (fin v)
  have c: "0 < c" using assms(4) by simp
  have n: "near a (x * c) (v * c)" using fin(2) c by (rule near_mult)
  have "x * c / 2 \<le> v * c" using n by (rule near_lower) (use assms(3) in simp)
  moreover have "pow2 (- 1022) \<le> 1 / 1000000" 
  proof -
    have "pow2 (- 1022) \<le> pow2 (- 20)" by (rule pow2_mono) simp
    also have "pow2 (- 20) \<le> 1 / 1000000" by (simp add: pow2_def)
    finally show ?thesis .
  qed
  ultimately have "pow2 (- 1022) \<le> v * c" using assms(6) by simp
  with n assms(2,3) have "track (a + 12 / 10 ^ 17) 1022 (x * c) (rnd (v * c))" by (intro track_rnd)
  then have "track (a + 12 / 10 ^ 17) (l - 1) (x * c) (rnd (v * c))"
    by (rule track_weaken) (use assms(5) in simp_all)
  then show ?thesis using fin(1) by simp
next
  case inf
  have c: "0 < c" using assms(4) by simp
  have "pow2 l = 2 * pow2 (l - 1)" using pow2_add [of 1 "l - 1"] by (simp add: pow2_def)
  moreover have "x * (1 / 2) \<le> x * c" using assms(4) inf(2) by (intro mult_left_mono) simp_all
  ultimately have "pow2 (l - 1) \<le> x * c" using inf(3) by simp
  moreover have "0 < x * c" using inf(2) c by simp
  ultimately show ?thesis using inf(1) c by (simp add: track_PosInf)
qed



section \<open>Literals\<close>

lemma rnd_numeral: "(numeral k :: int) < 2 ^ 53 \<Longrightarrow> rnd (numeral k) = Finite (numeral k)"
  using rnd_int_exact [of "numeral k"] by simp

lemma rnd_1: "rnd 1 = Finite 1"
  using rnd_int_exact [of 1] by simp

lemma lit_numeral: "(numeral k :: int) < 2 ^ 53 \<Longrightarrow> lit (numeral k) = Finite (numeral k)"
  by (simp add: lit_def rnd_numeral)

lemma lit_1: "lit 1 = Finite 1"
  by (simp add: lit_def rnd_1)

lemma lit_half: "lit (1 / 2) = Finite (1 / 2)"
  using rnd_cert [of "1 / 2" "- 1" "2 ^ 52"] by (simp add: lit_def pow2_def)

lemma lit_three_halves: "lit (3 / 2) = Finite (3 / 2)"
  using rnd_cert [of "3 / 2" 0 "3 * 2 ^ 51"] by (simp add: lit_def pow2_def)

lemma lit_005: "lit (5 / 100) = Finite (3602879701896397 / 72057594037927936)"
  using rnd_cert [of "5 / 100" "- 5" 7205759403792794] by (simp add: lit_def pow2_def)

lemma lit_015: "lit (15 / 100) = Finite (5404319552844595 / 36028797018963968)"
  using rnd_cert [of "15 / 100" "- 3" 5404319552844595] by (simp add: lit_def pow2_def)

lemmas lit_simps = lit_numeral lit_1 lit_half lit_three_halves lit_005 lit_015

lemma floor_rat_numeral: "\<lfloor>numeral a / numeral b :: rat\<rfloor> = numeral a div numeral b"
  using floor_divide_of_int_eq [of "numeral a" "numeral b", where ?'a = rat] by simp

lemma lit_1_20: "lit (1 / 20) = Finite (3602879701896397 / 72057594037927936)"
  using lit_005 by simp

lemma lit_3_20: "lit (3 / 20) = Finite (5404319552844595 / 36028797018963968)"
  using lit_015 by simp

lemma fmul_1000_005: "fmul (Finite 1000) (lit (1 / 20)) = Finite 50"
  using rnd_cert [of "1000 * (3602879701896397 / 72057594037927936)" 5 "50 * 2 ^ 47"]
  by (simp add: lit_1_20 pow2_def)

lemma fmul_1000_015: "fmul (Finite 1000) (lit (3 / 20)) = Finite 150"
  using rnd_cert [of "1000 * (5404319552844595 / 36028797018963968)" 7 "150 * 2 ^ 45"]
  by (simp add: lit_3_20 pow2_def)

subsection \<open>The model on familiar values\<close>

lemma rne_tie: "rne (of_int n + 1 / 2) = (if even n then n else n + 1)"
proof -
  have "\<lfloor>(of_int n :: rat) + 1 / 2\<rfloor> = n" by (simp add: floor_unique)
  then show ?thesis by (simp add: rne_def Let_def)
qed

lemma rnd_cert_tie:
  assumes "0 < x" "- 1022 \<le> e" "pow2 e \<le> x" "x < pow2 (e + 1)"
    and "x / pow2 (e - 52) = of_int n + 1 / 2"
    and "of_int (if even n then n else n + 1) * pow2 (e - 52) < pow2 1024"
  shows "rnd x = Finite (of_int (if even n then n else n + 1) * pow2 (e - 52))"
proof -
  have f: "flog2 x = e" using assms(1,3,4) by (rule flog2_unique)
  have m: "max (flog2 x) (- 1022) = e" using f assms(2) by simp
  have r: "rne (x / pow2 (e - 52)) = (if even n then n else n + 1)"
    by (simp only: assms(5) rne_tie)
  show ?thesis using assms(1,6) by (simp add: rnd_pos_unfold m r Let_def)
qed

lemma lit_one_tenth: "lit (1 / 10) = Finite (3602879701896397 / 36028797018963968)"
  using rnd_cert [of "1 / 10" "- 4" 7205759403792794] by (simp add: lit_def pow2_def)

lemma lit_one_fifth: "lit (1 / 5) = Finite (3602879701896397 / 18014398509481984)"
  using rnd_cert [of "1 / 5" "- 3" 7205759403792794] by (simp add: lit_def pow2_def)

lemma lit_three_tenths: "lit (3 / 10) = Finite (5404319552844595 / 18014398509481984)"
  using rnd_cert [of "3 / 10" "- 2" 5404319552844595] by (simp add: lit_def pow2_def)

lemma one_tenth_plus_one_fifth:
  "fadd (lit (1 / 10)) (lit (1 / 5)) = Finite (1351079888211149 / 4503599627370496)"
  using rnd_cert_tie [of "10808639105689191 / 36028797018963968" "- 2" 5404319552844595]
  by (simp add: lit_one_tenth lit_one_fifth pow2_def)

lemma one_tenth_plus_one_fifth_is_not_three_tenths:
  "fadd (lit (1 / 10)) (lit (1 / 5)) \<noteq> lit (3 / 10)"
  by (simp add: one_tenth_plus_one_fifth lit_three_tenths)

lemma largest_double_plus_half_ulp_overflows:
  "rnd (2 ^ 1024 - 2 ^ 970) = PosInf"
proof -
  have "rne ((2 ^ 1024 - 2 ^ 970) / pow2 (1023 - 52)) = 2 ^ 53"
    using rne_tie [of "2 ^ 53 - 1"] by (simp add: pow2_def)
  moreover have "flog2 (2 ^ 1024 - 2 ^ 970) = 1023"
    by (rule flog2_unique) (simp_all add: pow2_def)
  ultimately show ?thesis
    by (simp add: rnd_def Let_def pow2_def)
qed

lemma largest_double_is_kept:
  "rnd (2 ^ 1024 - 2 ^ 971) = Finite (2 ^ 1024 - 2 ^ 971)"
  using rnd_cert [of "2 ^ 1024 - 2 ^ 971" 1023 "2 ^ 53 - 1"] by (simp add: pow2_def)

section \<open>Request validation\<close>

lemma parse_valid:
  assumes "valid_body body"
  shows "costCalculationRequestSchema_parse (JsonObject body) =
    Inr \<lparr>usage = the (body_usage body), material = the (body_material body),
         timeline = the (body_timeline body)\<rparr>"
  using assms
  by (auto simp: valid_body_def valid_field_def parse_enum_def
      costCalculationRequestSchema_parse.simps split: option.splits)

lemma parse_enum_valid: "parse_enum values key v = [] \<longleftrightarrow> valid_field values v"
  by (simp add: parse_enum_def valid_field_def split: option.splits)

lemma parse_enum_paths: "issue_paths (parse_enum values key v) = (if valid_field values v then {} else {[key]})"
  by (simp add: parse_enum_def valid_field_def issue_paths_def split: option.splits)

lemma issue_paths_append: "issue_paths (xs @ ys) = issue_paths xs \<union> issue_paths ys"
  by (simp add: issue_paths_def)

lemma parse_invalid:
  assumes "\<not> valid_body body"
  shows "\<exists>issues. costCalculationRequestSchema_parse (JsonObject body) = Inl issues \<and> issues \<noteq> [] \<and>
     issue_paths issues =
       (if valid_field usage_values (body_usage body) then {} else {[''usage'']}) \<union>
       (if valid_field material_values (body_material body) then {} else {[''material'']}) \<union>
       (if valid_field timeline_values (body_timeline body) then {} else {[''timeline'']})"
proof -
  let ?issues = "parse_enum usage_values ''usage'' (body_usage body)
                 @ parse_enum material_values ''material'' (body_material body)
                 @ parse_enum timeline_values ''timeline'' (body_timeline body)"
  have ne: "?issues \<noteq> []" using assms by (simp add: valid_body_def parse_enum_valid)
  then have "costCalculationRequestSchema_parse (JsonObject body) = Inl ?issues"
    by (simp add: costCalculationRequestSchema_parse.simps Let_def)
  moreover have "issue_paths ?issues =
       (if valid_field usage_values (body_usage body) then {} else {[''usage'']}) \<union>
       (if valid_field material_values (body_material body) then {} else {[''material'']}) \<union>
       (if valid_field timeline_values (body_timeline body) then {} else {[''timeline'']})"
    by (simp only: issue_paths_append parse_enum_paths Un_assoc)
  ultimately show ?thesis using ne by blast
qed

text \<open>
  Claim C4, as the code has it. A request whose body is an object with a usage, material
  or timeline value outside its enumeration (or missing) is answered with the validation
  error, whatever the catalogue is and whether or not the storage can be read: validation
  comes first and nothing is computed. The issues of the error name exactly the keys
  whose value is invalid. A body that is not an object is answered with the validation
  error too, but by a single issue whose path is empty.
\<close>

theorem invalid_request_rejected:
  "(\<not> valid_body body \<longrightarrow>
      (\<exists>issues. cost_calculator (JsonObject body) stored = Json400 ''Invalid request data'' issues \<and>
         issues \<noteq> [] \<and>
         ([''usage''] \<in> issue_paths issues \<longleftrightarrow> \<not> valid_field usage_values (body_usage body)) \<and>
         ([''material''] \<in> issue_paths issues \<longleftrightarrow> \<not> valid_field material_values (body_material body)) \<and>
         ([''timeline''] \<in> issue_paths issues \<longleftrightarrow> \<not> valid_field timeline_values (body_timeline body)) \<and>
         issue_paths issues \<subseteq> {[''usage''], [''material''], [''timeline'']})) \<and>
   cost_calculator NotAnObject stored =
     Json400 ''Invalid request data'' [\<lparr>code = ''invalid_type'', path = []\<rparr>]"
proof (intro conjI impI)
  assume inv: "\<not> valid_body body"
  from parse_invalid [OF inv] obtain issues where
    p: "costCalculationRequestSchema_parse (JsonObject body) = Inl issues" and ne: "issues \<noteq> []" and
    ps: "issue_paths issues =
       (if valid_field usage_values (body_usage body) then {} else {[''usage'']}) \<union>
       (if valid_field material_values (body_material body) then {} else {[''material'']}) \<union>
       (if valid_field timeline_values (body_timeline body) then {} else {[''timeline'']})"
    by blast
  have "cost_calculator (JsonObject body) stored = Json400 ''Invalid request data'' issues"
    by (simp add: cost_calculator_def cost_calculator_try_def p)
  moreover have "[''usage''] \<in> issue_paths issues \<longleftrightarrow> \<not> valid_field usage_values (body_usage body)"
    unfolding ps by simp
  moreover have "[''material''] \<in> issue_paths issues \<longleftrightarrow> \<not> valid_field material_values (body_material body)"
    unfolding ps by simp
  moreover have "[''timeline''] \<in> issue_paths issues \<longleftrightarrow> \<not> valid_field timeline_values (body_timeline body)"
    unfolding ps by simp
  moreover have "issue_paths issues \<subseteq> {[''usage''], [''material''], [''timeline'']}"
    unfolding ps by auto
  ultimately show "\<exists>issues. cost_calculator (JsonObject body) stored = Json400 ''Invalid request data'' issues \<and>
         issues \<noteq> [] \<and>
         ([''usage''] \<in> issue_paths issues \<longleftrightarrow> \<not> valid_field usage_values (body_usage body)) \<and>
         ([''material''] \<in> issue_paths issues \<longleftrightarrow> \<not> valid_field material_values (body_material body)) \<and>
         ([''timeline''] \<in> issue_paths issues \<longleftrightarrow> \<not> valid_field timeline_values (body_timeline body)) \<and>
         issue_paths issues \<subseteq> {[''usage''], [''material''], [''timeline'']}"
    using ne by blast
next
  show "cost_calculator NotAnObject stored =
     Json400 ''Invalid request data'' [\<lparr>code = ''invalid_type'', path = []\<rparr>]"
    by (simp add: cost_calculator_def cost_calculator_try_def costCalculationRequestSchema_parse.simps)
qed

theorem invalid_request_rejected_witness:
  "\<not> valid_body \<lparr>body_usage = Some ''extreme'', body_material = None, body_timeline = Some ''3-5-years''\<rparr> \<and>
   cost_calculator
     (JsonObject \<lparr>body_usage = Some ''extreme'', body_material = None, body_timeline = Some ''3-5-years''\<rparr>)
     (Some [bender ''$1000+'' ''USA'' ''9.2''])
     = Json400 ''Invalid request data''
         [\<lparr>code = ''invalid_enum_value'', path = [''usage'']\<rparr>,
          \<lparr>code = ''invalid_type'', path = [''material'']\<rparr>] \<and>
   cost_calculator NotAnObject (Some [bender ''$1000+'' ''USA'' ''9.2''])
     = Json400 ''Invalid request data'' [\<lparr>code = ''invalid_type'', path = []\<rparr>]"
proof -
  let ?b = "\<lparr>body_usage = Some ''extreme'', body_material = None, body_timeline = Some ''3-5-years''\<rparr>"
  let ?c = "Some [bender ''$1000+'' ''USA'' ''9.2'']"
  have h: "\<not> valid_body ?b"
    by (simp add: valid_body_def valid_field_def usage_values_def)
  have e: "cost_calculator (JsonObject ?b) ?c
     = Json400 ''Invalid request data''
         [\<lparr>code = ''invalid_enum_value'', path = [''usage'']\<rparr>,
          \<lparr>code = ''invalid_type'', path = [''material'']\<rparr>]"
    by (simp add: cost_calculator_def cost_calculator_try_def costCalculationRequestSchema_parse.simps
        parse_enum_def usage_values_def material_values_def timeline_values_def)
  from invalid_request_rejected [of ?b ?c] h e
  show ?thesis by simp
qed

text \<open>
  A body that is not an object, an array for one, is rejected by an issue that names none
  of the three fields.
\<close>

theorem non_object_body_counterexample:
  "cost_calculator NotAnObject (Some [bender ''$1000+'' ''USA'' ''9.2''])
     = Json400 ''Invalid request data'' [\<lparr>code = ''invalid_type'', path = []\<rparr>] \<and>
   [''usage''] \<notin> issue_paths [\<lparr>code = ''invalid_type'', path = []\<rparr>] \<and>
   [''material''] \<notin> issue_paths [\<lparr>code = ''invalid_type'', path = []\<rparr>] \<and>
   [''timeline''] \<notin> issue_paths [\<lparr>code = ''invalid_type'', path = []\<rparr>]"
  by (simp add: cost_calculator_def cost_calculator_try_def costCalculationRequestSchema_parse.simps
      issue_paths_def)

section \<open>The empty catalogue\<close>

text \<open>
  Claim C2. With a valid request and an empty catalogue the sorted array is empty, so
  \<open>calculations[calculations.length - 1]\<close> is \<open>undefined\<close> and reading its \<open>totalCost\<close>
  throws; the \<open>catch\<close> answers with status 500. No result with an empty list and absent
  cheapest entry and savings is produced.
\<close>

theorem empty_catalog_faults:
  "cost_calculator (JsonObject (body_of ''medium'' ''chromoly'' ''3-5-years'')) (Some []) =
     Json500 ''Failed to calculate costs''"
  by (simp add: cost_calculator_def cost_calculator_try_def costCalculationRequestSchema_parse.simps
      parse_enum_def body_of_def usage_values_def material_values_def timeline_values_def
      array_sort_def element_def)

section \<open>Parsing the price text\<close>

lemma is_digit_cases:
  "is_digit c \<longleftrightarrow> c = CHR ''0'' \<or> c = CHR ''1'' \<or> c = CHR ''2'' \<or> c = CHR ''3'' \<or> c = CHR ''4'' \<or>
     c = CHR ''5'' \<or> c = CHR ''6'' \<or> c = CHR ''7'' \<or> c = CHR ''8'' \<or> c = CHR ''9''"
  by (auto simp: is_digit_def)

lemma digit_val_nonneg: "is_digit c \<Longrightarrow> 0 \<le> digit_val c"
  by (auto simp: is_digit_cases digit_val_def)

lemma skip_ws_none: "ws_len s = 0 \<Longrightarrow> skip_ws s = s"
  by (simp add: skip_ws.simps [of s])

lemma skip_ws_step: "ws_len s = n \<Longrightarrow> 0 < n \<Longrightarrow> skip_ws s = skip_ws (drop n s)"
  by (simp add: skip_ws.simps [of s])

lemma skip_ws_Nil: "skip_ws [] = []"
  by (rule skip_ws_none) (simp add: ws_len_def)

lemma ws3_heads: "w \<in> set ws3 \<Longrightarrow> hd w \<in> {CHR 0xE1, CHR 0xE2, CHR 0xE3, CHR 0xEF}"
  by (auto simp: ws3_def)

lemma ws_len_0:
  assumes "\<not> is_ws c" "c \<noteq> CHR 0xC2" "c \<notin> {CHR 0xE1, CHR 0xE2, CHR 0xE3, CHR 0xEF}"
  shows "ws_len (c # r) = 0"
proof -
  have "take 3 (c # r) \<notin> set ws3"
  proof
    assume "take 3 (c # r) \<in> set ws3"
    then have "hd (take 3 (c # r)) \<in> {CHR 0xE1, CHR 0xE2, CHR 0xE3, CHR 0xEF}" by (rule ws3_heads)
    moreover have "hd (take 3 (c # r)) = c" by (simp add: numeral_3_eq_3)
    ultimately show False using assms(3) by simp
  qed
  moreover have "take 2 (c # r) \<noteq> [CHR 0xC2, CHR 0xA0]"
    using assms(2) by (simp add: numeral_2_eq_2)
  ultimately show ?thesis using assms(1) by (simp add: ws_len_def)
qed

lemma digit_not_ws: "is_digit c \<Longrightarrow> skip_ws (c # r) = c # r"
proof -
  assume d: "is_digit c"
  have "\<not> is_ws c" using d by (auto simp: is_digit_cases is_ws_def)
  moreover have "c \<noteq> CHR 0xC2" using d by (auto simp: is_digit_cases)
  moreover have "c \<notin> {CHR 0xE1, CHR 0xE2, CHR 0xE3, CHR 0xEF}" using d by (auto simp: is_digit_cases)
  ultimately have "ws_len (c # r) = 0" by (rule ws_len_0)
  then show ?thesis by (rule skip_ws_none)
qed

lemma digit_not_sign: "is_digit c \<Longrightarrow> c \<noteq> CHR ''-'' \<and> c \<noteq> CHR ''+'' \<and> c \<noteq> CHR ''I''"
  by (auto simp: is_digit_cases)

lemma foldl_digits_nonneg:
  "\<forall>c \<in> set ds. is_digit c \<Longrightarrow> 0 \<le> acc \<Longrightarrow> 0 \<le> foldl (\<lambda>acc c. 10 * acc + digit_val c) acc ds"
proof (induction ds arbitrary: acc)
  case Nil
  then show ?case by simp
next
  case (Cons c ds)
  have "0 \<le> 10 * acc + digit_val c" using Cons.prems digit_val_nonneg [of c] by simp
  then show ?case using Cons by simp
qed

lemma digits_val_nonneg: "\<forall>c \<in> set ds. is_digit c \<Longrightarrow> 0 \<le> digits_val ds"
  by (simp add: digits_val_def foldl_digits_nonneg)

lemma strip_non_digits_digits: "\<forall>c \<in> set (strip_non_digits s). is_digit c"
  by (simp add: strip_non_digits_def)

lemma parseFloat_digits:
  assumes "\<forall>c \<in> set ds. is_digit c"
  shows "parseFloat ds = (if ds = [] then NaN else rnd (of_int (digits_val ds)))"
proof (cases ds)
  case Nil
  then show ?thesis by (simp add: parseFloat_def skip_ws_Nil)
next
  case (Cons c r)
  then have c: "is_digit c" using assms by simp
  have ne: "ds \<noteq> []" using Cons by simp
  have t: "takeWhile is_digit ds = ds" "dropWhile is_digit ds = []"
    using assms by (simp_all add: takeWhile_eq_all_conv dropWhile_eq_Nil_conv)
  have w: "skip_ws ds = ds" using Cons digit_not_ws [OF c] by simp
  have i: "(take 8 ds = ''Infinity'') = False" using Cons digit_not_sign [OF c] by auto
  have neg: "(case ds of [] \<Rightarrow> False | c # x \<Rightarrow> c = CHR ''-'') = False"
    using Cons digit_not_sign [OF c] by simp
  have u: "(case ds of [] \<Rightarrow> [] | c # r \<Rightarrow> if c = CHR ''-'' \<or> c = CHR ''+'' then r else ds) = ds"
    using Cons digit_not_sign [OF c] by simp
  have "parseFloat ds = rnd (of_int (digits_val ds))"
    using ne unfolding parseFloat_def Let_def w neg u t i
    by (simp add: exponent_part_def pow10_def)
  then show ?thesis using ne by simp
qed

section \<open>Signs\<close>

lemma nonneg_iff: "nonneg x \<longleftrightarrow> x = PosInf \<or> (\<exists>y. x = Finite y \<and> 0 \<le> y)"
  by (cases x) (auto simp: nonneg_def)

lemma nonneg_rnd: "0 \<le> x \<Longrightarrow> nonneg (rnd x)"
  using rnd_nonneg [of x] by (simp add: nonneg_iff)

lemma nonneg_fmul:
  assumes "nonneg a" "0 < c"
  shows "nonneg (fmul a (Finite c))"
proof -
  from assms(1) consider "a = PosInf" | y where "a = Finite y" "0 \<le> y"
    by (auto simp: nonneg_iff)
  then show ?thesis
  proof cases
    case 1
    then show ?thesis using assms(2) by (simp add: nonneg_iff)
  next
    case 2
    then have "0 \<le> y * c" using assms(2) by simp
    then show ?thesis using 2 by (simp add: nonneg_rnd)
  qed
qed

lemma nonneg_fadd:
  assumes "nonneg a" "nonneg b"
  shows "nonneg (fadd a b)"
proof -
  from assms(1) consider "a = PosInf" | x where "a = Finite x" "0 \<le> x"
    by (auto simp: nonneg_iff)
  then show ?thesis
  proof cases
    case 1
    then show ?thesis using assms(2) by (auto simp: nonneg_iff)
  next
    case 2
    from assms(2) consider "b = PosInf" | y where "b = Finite y" "0 \<le> y"
      by (auto simp: nonneg_iff)
    then show ?thesis
    proof cases
      case 1
      then show ?thesis using 2 by (simp add: nonneg_iff)
    next
      case b: 2
      then have "0 \<le> x + y" using 2 by simp
      then show ?thesis using 2 b by (simp add: nonneg_rnd)
    qed
  qed
qed

lemma truthy_rnd_int: "1 \<le> n \<Longrightarrow> truthy (rnd (of_int n))"
proof -
  assume n: "1 \<le> n"
  have "pow2 (- 1074) \<le> pow2 0" by (rule pow2_mono) simp
  also have "pow2 0 \<le> of_int n" using n by (simp add: pow2_0)
  finally have "rnd (of_int n) = PosInf \<or> (\<exists>y. rnd (of_int n) = Finite y \<and> 0 < y)"
    by (rule rnd_pos)
  then show ?thesis by auto
qed

section \<open>The entry of one product\<close>

lemma initialCost_calculate:
  "initialCost (calculate rq b) =
     (if strip_non_digits (priceRange b) = [] \<or> digits_val (strip_non_digits (priceRange b)) = 0
      then Finite 1000
      else rnd (of_int (digits_val (strip_non_digits (priceRange b)))))"
proof -
  let ?d = "strip_non_digits (priceRange b)"
  have p: "parseFloat ?d = (if ?d = [] then NaN else rnd (of_int (digits_val ?d)))"
    by (rule parseFloat_digits) (rule strip_non_digits_digits)
  have n: "0 \<le> digits_val ?d" by (rule digits_val_nonneg) (rule strip_non_digits_digits)
  have i: "initialCost (calculate rq b) = js_or (parseFloat ?d) (Finite 1000)"
    by (simp add: calculate_def Let_def lit_numeral)
  show ?thesis
  proof (cases "?d = [] \<or> digits_val ?d = 0")
    case True
    then show ?thesis by (auto simp: i p js_or_def rnd_0)
  next
    case False
    then have "1 \<le> digits_val ?d" using n by linarith
    then have "truthy (rnd (of_int (digits_val ?d)))" by (rule truthy_rnd_int)
    then show ?thesis using False by (simp add: i p js_or_def)
  qed
qed

lemma nonneg_initialCost: "nonneg (initialCost (calculate rq b))"
proof -
  have "0 \<le> digits_val (strip_non_digits (priceRange b))"
    by (rule digits_val_nonneg) (rule strip_non_digits_digits)
  then show ?thesis by (simp add: initialCost_calculate nonneg_rnd) (simp add: nonneg_def)
qed

lemma usageMultiplier_cases:
  "usageMultiplier rq = Finite (1 / 2) \<or> usageMultiplier rq = Finite 1 \<or> usageMultiplier rq = Finite (3 / 2)"
  by (simp add: usageMultiplier_def lit_simps)

lemma timelineMultiplier_cases:
  "timelineMultiplier rq = Finite 1 \<or> timelineMultiplier rq = Finite 2 \<or> timelineMultiplier rq = Finite 3"
  by (simp add: timelineMultiplier_def lit_simps)

lemma multipliers_pos:
  obtains um tm where "usageMultiplier rq = Finite um" "0 < um"
    "timelineMultiplier rq = Finite tm" "0 < tm"
  using usageMultiplier_cases [of rq] timelineMultiplier_cases [of rq] by fastforce

lemma calculate_fields:
  "maintenanceCost (calculate rq b) =
     (if countryOfOrigin b = ''USA''
      then fmul (fmul (fmul (initialCost (calculate rq b)) (lit (5 / 100))) (usageMultiplier rq)) (timelineMultiplier rq)
      else fmul (fmul (fmul (initialCost (calculate rq b)) (lit (15 / 100))) (usageMultiplier rq)) (timelineMultiplier rq))"
  "supportCost (calculate rq b) =
     (if countryOfOrigin b = ''USA'' then fmul (Finite 100) (timelineMultiplier rq)
      else fmul (Finite 300) (timelineMultiplier rq))"
  "downtimeCost (calculate rq b) =
     (if countryOfOrigin b = ''USA'' then fmul (fmul (Finite 50) (usageMultiplier rq)) (timelineMultiplier rq)
      else fmul (fmul (Finite 200) (usageMultiplier rq)) (timelineMultiplier rq))"
  "totalCost (calculate rq b) =
     fadd (fadd (fadd (initialCost (calculate rq b)) (maintenanceCost (calculate rq b)))
       (supportCost (calculate rq b))) (downtimeCost (calculate rq b))"
  by (simp_all add: calculate_def Let_def lit_numeral)

lemma nonneg_components:
  "nonneg (maintenanceCost (calculate rq b))"
  "nonneg (supportCost (calculate rq b))"
  "nonneg (downtimeCost (calculate rq b))"
proof -
  obtain um tm where m: "usageMultiplier rq = Finite um" "0 < um"
    "timelineMultiplier rq = Finite tm" "0 < tm"
    by (rule multipliers_pos)
  have i: "nonneg (initialCost (calculate rq b))" by (rule nonneg_initialCost)
  have c5: "nonneg (fmul (initialCost (calculate rq b)) (lit (5 / 100)))"
    unfolding lit_005 by (rule nonneg_fmul [OF i]) simp
  have c15: "nonneg (fmul (initialCost (calculate rq b)) (lit (15 / 100)))"
    unfolding lit_015 by (rule nonneg_fmul [OF i]) simp
  show "nonneg (maintenanceCost (calculate rq b))"
    using c5 c15 m by (simp add: calculate_fields(1) nonneg_fmul)
  have k: "nonneg (Finite 100)" "nonneg (Finite 300)" "nonneg (Finite 50)" "nonneg (Finite 200)"
    by (simp_all add: nonneg_def)
  show "nonneg (supportCost (calculate rq b))"
    using k m by (simp add: calculate_fields(2) nonneg_fmul del: fmul.simps)
  show "nonneg (downtimeCost (calculate rq b))"
    using k m by (simp add: calculate_fields(3) nonneg_fmul del: fmul.simps)
qed

lemma nonneg_totalCost: "nonneg (totalCost (calculate rq b))"
  by (simp add: calculate_fields(4) nonneg_fadd nonneg_initialCost nonneg_components)

section \<open>What the cost figures depend on\<close>

lemma calculate_material:
  assumes "usage rq1 = usage rq2" "timeline rq1 = timeline rq2"
  shows "calculate rq1 = calculate rq2"
  using assms
  by (intro ext) (simp add: calculate_def usageMultiplier_def timelineMultiplier_def Let_def)

lemma try_outcome:
  assumes "valid_body body"
  shows "cost_calculator (JsonObject body) stored =
    (case stored of
       None \<Rightarrow> Json500 ''Failed to calculate costs''
     | Some tubeBenders \<Rightarrow>
         let rq = \<lparr>usage = the (body_usage body), material = the (body_material body),
                    timeline = the (body_timeline body)\<rparr>;
             cs = array_sort by_totalCost (map (calculate rq) tubeBenders)
         in if cs = [] then Json500 ''Failed to calculate costs''
            else Json200 \<lparr>request = rq, calculations = cs, bestValue = Some (hd cs),
                          savings = fsub (totalCost (last cs)) (totalCost (hd cs))\<rparr>)"
proof (cases stored)
  case None
  then show ?thesis
    by (simp add: cost_calculator_def cost_calculator_try_def parse_valid [OF assms])
next
  case (Some tubeBenders)
  define rq where "rq = \<lparr>usage = the (body_usage body), material = the (body_material body),
                    timeline = the (body_timeline body)\<rparr>"
  define cs where "cs = array_sort by_totalCost (map (calculate rq) tubeBenders)"
  show ?thesis
  proof (cases "cs = []")
    case True
    then show ?thesis using Some
      by (simp add: cost_calculator_def cost_calculator_try_def parse_valid [OF assms]
          element_def Let_def rq_def [symmetric] cs_def [symmetric])
  next
    case False
    then have l: "0 < length cs" by simp
    have "nat (int (length cs) - 1) = length cs - 1" using l by linarith
    then have e1: "element cs (int (length cs) - 1) = Some (last cs)"
      using False l by (simp add: element_def last_conv_nth)
    have e0: "element cs 0 = Some (hd cs)"
      using False by (simp add: element_def hd_conv_nth)
    show ?thesis using Some False
      by (simp add: cost_calculator_def cost_calculator_try_def parse_valid [OF assms]
          Let_def rq_def [symmetric] cs_def [symmetric] e0 e1)
  qed
qed

text \<open>
  Claim C8. Two valid requests with the same usage and timeline and any materials get,
  on the same catalogue, the same calculations, the same cheapest entry and the same
  savings (or the same failure); and a valid request is never answered with the
  validation error, so no valid material value is rejected.
\<close>

theorem material_is_ignored:
  assumes "valid_body b1" "valid_body b2"
    and "body_usage b1 = body_usage b2" "body_timeline b1 = body_timeline b2"
  shows "outcome_of (cost_calculator (JsonObject b1) stored) = outcome_of (cost_calculator (JsonObject b2) stored) \<and>
    (\<forall>issues. outcome_of (cost_calculator (JsonObject b1) stored) \<noteq> Rejected issues)"
proof -
  let ?rq1 = "\<lparr>usage = the (body_usage b1), material = the (body_material b1),
                    timeline = the (body_timeline b1)\<rparr>"
  let ?rq2 = "\<lparr>usage = the (body_usage b2), material = the (body_material b2),
                    timeline = the (body_timeline b2)\<rparr>"
  have c: "calculate ?rq1 = calculate ?rq2"
    by (rule calculate_material) (simp_all add: assms(3,4))
  show ?thesis
    by (cases stored) (simp_all add: try_outcome [OF assms(1)] try_outcome [OF assms(2)] c Let_def)
qed

theorem material_is_ignored_witness:
  "valid_body (body_of ''medium'' ''chromoly'' ''3-5-years'') \<and>
   valid_body (body_of ''medium'' ''aluminum'' ''3-5-years'') \<and>
   outcome_of (cost_calculator (JsonObject (body_of ''medium'' ''chromoly'' ''3-5-years'')) (Some [bender ''$1000+'' ''USA'' ''9.2'']))
   = outcome_of (cost_calculator (JsonObject (body_of ''medium'' ''aluminum'' ''3-5-years'')) (Some [bender ''$1000+'' ''USA'' ''9.2'']))"
proof -
  have v1: "valid_body (body_of ''medium'' ''chromoly'' ''3-5-years'')"
    by (simp add: valid_body_def valid_field_def body_of_def usage_values_def
        material_values_def timeline_values_def)
  have v2: "valid_body (body_of ''medium'' ''aluminum'' ''3-5-years'')"
    by (simp add: valid_body_def valid_field_def body_of_def usage_values_def
        material_values_def timeline_values_def)
  have u: "body_usage (body_of ''medium'' ''chromoly'' ''3-5-years'')
      = body_usage (body_of ''medium'' ''aluminum'' ''3-5-years'')"
    by (simp add: body_of_def)
  have t: "body_timeline (body_of ''medium'' ''chromoly'' ''3-5-years'')
      = body_timeline (body_of ''medium'' ''aluminum'' ''3-5-years'')"
    by (simp add: body_of_def)
  from material_is_ignored [OF v1 v2 u t] v1 v2 show ?thesis by blast
qed

text \<open>
  Claim C10. The five cost figures of an entry are a function of the product's price text
  and country of origin and of the request's usage and timeline: products that agree on
  the two fields, under requests that agree on the two tiers, get the same figures,
  whatever their other fields are.
\<close>

theorem figures_depend_on_price_and_origin_only:
  assumes "usage rq1 = usage rq2" "timeline rq1 = timeline rq2"
    and "priceRange b1 = priceRange b2" "countryOfOrigin b1 = countryOfOrigin b2"
  shows "cost_figures (calculate rq1 b1) = cost_figures (calculate rq2 b2)"
  using assms
  by (simp add: cost_figures_def calculate_def usageMultiplier_def timelineMultiplier_def Let_def)

theorem figures_depend_on_price_and_origin_only_witness:
  "bender ''$1000+'' ''USA'' ''9.2'' \<noteq> (bender ''$1000+'' ''USA'' ''9.2'')\<lparr>supportQuality := 3, buildQuality := 2\<rparr> \<and>
   cost_figures (calculate \<lparr>usage = ''medium'', material = ''chromoly'', timeline = ''3-5-years''\<rparr>
       (bender ''$1000+'' ''USA'' ''9.2''))
   = cost_figures (calculate \<lparr>usage = ''medium'', material = ''chromoly'', timeline = ''3-5-years''\<rparr>
       ((bender ''$1000+'' ''USA'' ''9.2'')\<lparr>supportQuality := 3, buildQuality := 2\<rparr>))"
  using figures_depend_on_price_and_origin_only
    [of "\<lparr>usage = ''medium'', material = ''chromoly'', timeline = ''3-5-years''\<rparr>"
        "\<lparr>usage = ''medium'', material = ''chromoly'', timeline = ''3-5-years''\<rparr>"
        "bender ''$1000+'' ''USA'' ''9.2''"
        "(bender ''$1000+'' ''USA'' ''9.2'')\<lparr>supportQuality := 3, buildQuality := 2\<rparr>"]
  by (simp add: bender_def)

section \<open>The fallback score\<close>

lemma scoredProduct_primary:
  "calculateTubeBenderScore p = Inr scored \<Longrightarrow>
     scoredProduct calculateTubeBenderScore p = Inr scored"
  by (simp add: scoredProduct_def)

lemma scoredProduct_fallback:
  assumes "calculateTubeBenderScore p = Inl err"
  shows "scoredProduct calculateTubeBenderScore p =
    Inr \<lparr>product = p, totalScore = Math_round (fmul (parseFloat (rating p)) (Finite 10)),
     scoreBreakdown =
       [\<lparr>criteria = ''Overall Rating'',
         points = Math_round (fmul (parseFloat (rating p)) (Finite 10)),
         maxPoints = Finite 100,
         reasoning = ''Based on '' @ rating p @ ''/10 rating''\<rparr>]\<rparr>"
  using assms by (simp add: scoredProduct_def Let_def lit_numeral)

lemma skip_ws_8_75: "skip_ws ''8.75'' = ''8.75''"
  by (rule skip_ws_none) (simp add: ws_len_def is_ws_def ws3_def)

lemma skip_ws_9_2: "skip_ws ''9.2'' = ''9.2''"
  by (rule skip_ws_none) (simp add: ws_len_def is_ws_def ws3_def)

lemma skip_ws_NA: "skip_ws ''N/A'' = ''N/A''"
  by (rule skip_ws_none) (simp add: ws_len_def is_ws_def ws3_def)

lemma parseFloat_8_75: "parseFloat ''8.75'' = Finite (35 / 4)"
proof -
  have "rnd (35 / 4) = Finite (35 / 4)"
    using rnd_cert [of "35 / 4" 3 "35 * 2 ^ 47"] by (simp add: pow2_def)
  then show ?thesis
    by (simp add: parseFloat_def skip_ws_8_75 is_digit_def digits_val_def digit_val_def
        exponent_part_def pow10_def Let_def)
qed

lemma parseFloat_9_2: "parseFloat ''9.2'' = rnd (46 / 5)"
  by (simp add: parseFloat_def skip_ws_9_2 is_digit_def digits_val_def digit_val_def
      exponent_part_def pow10_def Let_def)

lemma parseFloat_NA: "parseFloat ''N/A'' = NaN"
  by (simp add: parseFloat_def skip_ws_NA is_digit_def Let_def)

text \<open>A no-break space (U+00A0) before the number is skipped like a blank.\<close>

lemma parseFloat_nbsp_9_2: "parseFloat (CHR 0xC2 # CHR 0xA0 # ''9.2'') = parseFloat ''9.2''"
proof -
  have "ws_len (CHR 0xC2 # CHR 0xA0 # ''9.2'') = 2"
    by (simp add: ws_len_def is_ws_def)
  then have "skip_ws (CHR 0xC2 # CHR 0xA0 # ''9.2'') = skip_ws (drop 2 (CHR 0xC2 # CHR 0xA0 # ''9.2''))"
    by (rule skip_ws_step) simp
  then have "skip_ws (CHR 0xC2 # CHR 0xA0 # ''9.2'') = skip_ws ''9.2''" by simp
  then show ?thesis by (simp add: parseFloat_def)
qed

lemma round_87_5: "Math_round (fmul (Finite (35 / 4)) (Finite 10)) = Finite 88"
proof -
  have "rnd (175 / 2) = Finite (175 / 2)"
    using rnd_cert [of "175 / 2" 6 "175 * 2 ^ 45"] by (simp add: pow2_def)
  then show ?thesis by (simp add: floor_rat_numeral)
qed

text \<open>Scaling a rating between 0 and 10 and rounding gives an integer between 0 and 100.\<close>

lemma scale_in_range:
  assumes "0 \<le> r" "r \<le> 10"
  shows "\<exists>n. Math_round (fmul (Finite r) (Finite 10)) = Finite (of_int n) \<and> 0 \<le> n \<and> n \<le> 100 \<and>
     \<bar>of_int n - r * 10\<bar> \<le> 1 / 2 + 1 / 10 ^ 12"
proof (cases "r = 0")
  case True
  have "\<lfloor>1 / 2 :: rat\<rfloor> = 0" by (simp add: floor_unique)
  then have "Math_round (fmul (Finite r) (Finite 10)) = Finite (of_int 0)"
    using True by (simp add: rnd_0)
  moreover have "\<bar>of_int 0 - r * 10\<bar> \<le> 1 / 2 + 1 / 10 ^ 12" using True by simp
  ultimately show ?thesis by (intro exI [of _ 0]) simp
next
  case False
  define x where "x = r * 10"
  have x0: "0 < x" and x100: "x \<le> 100" using assms False by (simp_all add: x_def)
  have small: "pow2 (max (flog2 x) (- 1022) - 53) \<le> 1 / 10 ^ 12"
  proof -
    have "pow2 (flog2 x) \<le> x" using x0 by (rule flog2_bounds)
    moreover have "(100 :: rat) < pow2 7" by (simp add: pow2_def)
    ultimately have "pow2 (flog2 x) < pow2 7" using x100 by linarith
    then have "flog2 x < 7" by (simp add: pow2_less_iff)
    then have "pow2 (max (flog2 x) (- 1022) - 53) \<le> pow2 (- 47)" by (intro pow2_mono) simp
    also have "pow2 (- 47) \<le> 1 / 10 ^ 12" by (simp add: pow2_def)
    finally show ?thesis .
  qed
  from x0 show ?thesis
  proof (cases rule: rnd_pos_cases)
    case inf
    then have "pow2 1023 \<le> x" by (rule rnd_inf_large)
    moreover have "(100 :: rat) < pow2 1023" by (simp add: pow2_def)
    ultimately show ?thesis using x100 by linarith
  next
    case (fin y)
    define n where "n = \<lfloor>y + 1 / 2\<rfloor>"
    have fl: "of_int n \<le> y + 1 / 2" "y + 1 / 2 < of_int n + 1"
      using floor_correct [of "y + 1 / 2"] by (simp_all add: n_def)
    define e :: rat where "e = 1 / 10 ^ 12"
    have e: "e \<le> 1 / 4" by (simp add: e_def)
    have yx: "\<bar>y - x\<bar> \<le> e" using fin(3) small unfolding e_def by (rule order_trans)
    have "0 \<le> n" using fin(2) by (simp add: n_def)
    moreover have "n \<le> 100"
    proof -
      have "(of_int n :: rat) < 101" using fl(1) yx x100 e by linarith
      then have "(of_int n :: rat) < of_int 101" by simp
      then have "n < 101" by (simp only: of_int_less_iff)
      then show ?thesis by simp
    qed
    moreover have "\<bar>of_int n - x\<bar> \<le> 1 / 2 + e" using fl yx by linarith
    then have "\<bar>of_int n - x\<bar> \<le> 1 / 2 + 1 / 10 ^ 12" by (simp only: e_def)
    moreover have "Math_round (fmul (Finite r) (Finite 10)) = Finite (of_int n)"
      using fin(1) by (simp add: x_def n_def)
    ultimately show ?thesis unfolding x_def by blast
  qed
qed

text \<open>A rating with one decimal, \<open>k / 10\<close>, scales back to the integer \<open>k\<close> exactly.\<close>

lemma scale_tenths:
  assumes "0 \<le> k" "k \<le> 100" "y = rnd (of_int k / 10)"
  shows "Math_round (fmul y (Finite 10)) = Finite (of_int k)"
proof (cases "k = 0")
  case True
  have "\<lfloor>1 / 2 :: rat\<rfloor> = 0" by (simp add: floor_unique)
  then show ?thesis using True assms(3) by (simp add: rnd_0)
next
  case False
  define x :: rat where "x = of_int k / 10"
  have k1: "(1 :: rat) \<le> of_int k" using assms(1) False by linarith
  have k100: "(of_int k :: rat) \<le> 100" using assms(2) by (simp add: of_int_le_iff [of k 100, where ?'a = rat, simplified])
  have x0: "0 < x" using k1 by (simp add: x_def)
  have tiny: "pow2 (- 1022) \<le> 1 / 10"
  proof -
    have "pow2 (- 1022) \<le> pow2 (- 4)" by (rule pow2_mono) simp
    also have "pow2 (- 4) \<le> 1 / 10" by (simp add: pow2_def)
    finally show ?thesis .
  qed
  have "pow2 (- 1022) \<le> x" using tiny k1 by (simp add: x_def)
  with near_refl [OF x0] have "track (0 + 12 / 10 ^ 17) 1022 x (rnd x)"
    by (intro track_rnd) simp_all
  then have t1: "track (12 / 10 ^ 17) 1022 x y" using assms(3) by (simp add: x_def)
  have "track (12 / 10 ^ 17 + 12 / 10 ^ 17) (1022 - 1) (x * 10) (fmul y (Finite 10))"
    using t1 by (rule track_fmul) (use k1 in \<open>simp_all add: x_def\<close>)
  then have t2: "track (24 / 10 ^ 17) 1021 (of_int k) (fmul y (Finite 10))" by (simp add: x_def)
  from t2 show ?thesis
  proof (cases rule: track_cases)
    case (fin v)
    have lo: "(1 - 24 / 10 ^ 17) * of_int k \<le> v" and up: "v \<le> (1 + 24 / 10 ^ 17) * of_int k"
      using fin(2) by (simp_all add: near_def)
    define c :: rat where "c = 24 / 10 ^ 17 * of_int k"
    have "c \<le> 24 / 10 ^ 17 * 100" unfolding c_def using k100 by (intro mult_left_mono) simp_all
    then have c: "c \<le> 1 / 4" by simp
    have "(1 - 24 / 10 ^ 17) * of_int k = of_int k - c" "(1 + 24 / 10 ^ 17) * of_int k = of_int k + c"
      by (simp_all add: c_def algebra_simps)
    then have e: "of_int k - 1 / 4 \<le> v" "v \<le> of_int k + 1 / 4" using lo up c by linarith+
    have "\<lfloor>v + 1 / 2\<rfloor> = k" using e by (intro floor_unique) linarith+
    then show ?thesis using fin(1) by simp
  next
    case inf
    have "pow2 1021 \<le> pow2 1021" by simp
    moreover have "(100 :: rat) < pow2 1021" by (simp add: pow2_def)
    ultimately show ?thesis using inf(3) k100 by linarith
  qed
qed

text \<open>
  Claim C5. When the primary scoring throws, the \<open>try\<close> statement still ends with a scored
  product and not with an exception. Its breakdown is the single entry labelled
  \<open>Overall Rating\<close>, out of 100, whose points are the total score. The total score is the
  rating, read as a number, times ten and rounded to the nearest integer, halves upwards:
  for the finite rating \<open>r\<close> and the binary64 product \<open>x\<close> of \<open>r\<close> and 10 it is the integer
  \<open>\<lfloor>x + 1/2\<rfloor>\<close>; for a rating from 0 to 10 it is an integer from 0 to 100 at most a half
  (and the rounding error of the product) away from \<open>10 r\<close>; and for a rating that is the
  binary64 value of \<open>k / 10\<close>, \<open>k\<close> an integer from 0 to 100, it is \<open>k\<close> itself.
\<close>

theorem fallback_single_rating_entry:
  assumes "calculateTubeBenderScore p = Inl err"
  shows "\<exists>s item. scoredProduct calculateTubeBenderScore p = Inr s \<and>
     scoreBreakdown s = [item] \<and>
     criteria item = ''Overall Rating'' \<and>
     reasoning item = ''Based on '' @ rating p @ ''/10 rating'' \<and>
     maxPoints item = Finite 100 \<and>
     points item = totalScore s \<and>
     (\<forall>r x. parseFloat (rating p) = Finite r \<and> rnd (r * 10) = Finite x \<longrightarrow>
        totalScore s = Finite (of_int \<lfloor>x + 1 / 2\<rfloor>)) \<and>
     (\<forall>r. parseFloat (rating p) = Finite r \<and> 0 \<le> r \<and> r \<le> 10 \<longrightarrow>
        (\<exists>n. totalScore s = Finite (of_int n) \<and> 0 \<le> n \<and> n \<le> 100 \<and>
           \<bar>of_int n - r * 10\<bar> \<le> 1 / 2 + 1 / 10 ^ 12)) \<and>
     (\<forall>k. 0 \<le> k \<and> k \<le> 100 \<and> parseFloat (rating p) = rnd (of_int k / 10) \<longrightarrow>
        totalScore s = Finite (of_int k))"
proof -
  define s where "s = \<lparr>product = p, totalScore = Math_round (fmul (parseFloat (rating p)) (Finite 10)),
     scoreBreakdown =
       [\<lparr>criteria = ''Overall Rating'',
         points = Math_round (fmul (parseFloat (rating p)) (Finite 10)),
         maxPoints = Finite 100,
         reasoning = ''Based on '' @ rating p @ ''/10 rating''\<rparr>]\<rparr>"
  define item where "item = \<lparr>criteria = ''Overall Rating'',
         points = Math_round (fmul (parseFloat (rating p)) (Finite 10)),
         maxPoints = Finite 100,
         reasoning = ''Based on '' @ rating p @ ''/10 rating''\<rparr>"
  have 1: "scoredProduct calculateTubeBenderScore p = Inr s"
    using scoredProduct_fallback [of calculateTubeBenderScore p err] assms by (simp add: s_def)
  have 2: "scoreBreakdown s = [item]" by (simp add: s_def item_def)
  have 3: "criteria item = ''Overall Rating''"
    "reasoning item = ''Based on '' @ rating p @ ''/10 rating''"
    "maxPoints item = Finite 100" "points item = totalScore s"
    by (simp_all add: s_def item_def)
  have t: "totalScore s = Math_round (fmul (parseFloat (rating p)) (Finite 10))"
    by (simp add: s_def)
  have 4: "\<forall>r x. parseFloat (rating p) = Finite r \<and> rnd (r * 10) = Finite x \<longrightarrow>
        totalScore s = Finite (of_int \<lfloor>x + 1 / 2\<rfloor>)"
    by (simp add: t)
  have 5: "\<forall>r. parseFloat (rating p) = Finite r \<and> 0 \<le> r \<and> r \<le> 10 \<longrightarrow>
        (\<exists>n. totalScore s = Finite (of_int n) \<and> 0 \<le> n \<and> n \<le> 100 \<and>
           \<bar>of_int n - r * 10\<bar> \<le> 1 / 2 + 1 / 10 ^ 12)"
  proof (intro allI impI)
    fix r
    assume a: "parseFloat (rating p) = Finite r \<and> 0 \<le> r \<and> r \<le> 10"
    then have "0 \<le> r" "r \<le> 10" by simp_all
    then show "\<exists>n. totalScore s = Finite (of_int n) \<and> 0 \<le> n \<and> n \<le> 100 \<and>
           \<bar>of_int n - r * 10\<bar> \<le> 1 / 2 + 1 / 10 ^ 12"
      unfolding t using a scale_in_range [of r] by simp
  qed
  have 6: "\<forall>k. 0 \<le> k \<and> k \<le> 100 \<and> parseFloat (rating p) = rnd (of_int k / 10) \<longrightarrow>
        totalScore s = Finite (of_int k)"
  proof (intro allI impI)
    fix k :: int
    assume "0 \<le> k \<and> k \<le> 100 \<and> parseFloat (rating p) = rnd (of_int k / 10)"
    then have "0 \<le> k" "k \<le> 100" "parseFloat (rating p) = rnd (of_int k / 10)" by simp_all
    then show "totalScore s = Finite (of_int k)" unfolding t by (rule scale_tenths)
  qed
  show ?thesis
    using 1 2 3 4 5 6 by (intro exI [of _ s] exI [of _ item] conjI)
qed

theorem fallback_single_rating_entry_witness:
  "map_sum id totalScore (scoredProduct (\<lambda>p. Inl ()) (bender ''$1000+'' ''USA'' ''8.75'')) = Inr (Finite 88) \<and>
   map_sum id (map points \<circ> scoreBreakdown)
     (scoredProduct (\<lambda>p. Inl ()) (bender ''$1000+'' ''USA'' ''8.75'')) = Inr [Finite 88] \<and>
   map_sum id (map criteria \<circ> scoreBreakdown)
     (scoredProduct (\<lambda>p. Inl ()) (bender ''$1000+'' ''USA'' ''8.75'')) = Inr [''Overall Rating''] \<and>
   map_sum id (map reasoning \<circ> scoreBreakdown)
     (scoredProduct (\<lambda>p. Inl ()) (bender ''$1000+'' ''USA'' ''8.75'')) = Inr [''Based on 8.75/10 rating''] \<and>
   map_sum id totalScore (scoredProduct (\<lambda>p. Inl ()) (bender ''$1000+'' ''USA'' ''9.2'')) = Inr (Finite 92)"
proof -
  have r: "rating (bender ''$1000+'' ''USA'' ''8.75'') = ''8.75''"
    "rating (bender ''$1000+'' ''USA'' ''9.2'') = ''9.2''" by (simp_all add: bender_def)
  have x: "rnd (35 / 4 * 10) = Finite (175 / 2)"
    using rnd_cert [of "175 / 2" 6 "175 * 2 ^ 45"] by (simp add: pow2_def)
  have f: "\<lfloor>175 / 2 + 1 / 2 :: rat\<rfloor> = 88" by (simp add: floor_unique)
  from fallback_single_rating_entry [of "\<lambda>p. Inl ()" "bender ''$1000+'' ''USA'' ''8.75''" "()", OF refl]
  obtain s item where
    a: "scoredProduct (\<lambda>p. Inl ()) (bender ''$1000+'' ''USA'' ''8.75'') = Inr s"
       "scoreBreakdown s = [item]" "criteria item = ''Overall Rating''"
       "reasoning item = ''Based on '' @ rating (bender ''$1000+'' ''USA'' ''8.75'') @ ''/10 rating''"
       "points item = totalScore s"
       "\<forall>r x. parseFloat (rating (bender ''$1000+'' ''USA'' ''8.75'')) = Finite r \<and> rnd (r * 10) = Finite x \<longrightarrow>
          totalScore s = Finite (of_int \<lfloor>x + 1 / 2\<rfloor>)"
    by (elim exE conjE)
  have "parseFloat (rating (bender ''$1000+'' ''USA'' ''8.75'')) = Finite (35 / 4) \<and>
      rnd (35 / 4 * 10) = Finite (175 / 2)"
    using x by (simp only: r parseFloat_8_75 simp_thms)
  with a(6) [rule_format, of "35 / 4" "175 / 2"]
  have "totalScore s = Finite (of_int \<lfloor>175 / 2 + 1 / 2 :: rat\<rfloor>)" .
  then have ts: "totalScore s = Finite 88" by (simp only: f) simp
  from fallback_single_rating_entry [of "\<lambda>p. Inl ()" "bender ''$1000+'' ''USA'' ''9.2''" "()", OF refl]
  obtain s' where
    b: "scoredProduct (\<lambda>p. Inl ()) (bender ''$1000+'' ''USA'' ''9.2'') = Inr s'"
       "\<forall>k. 0 \<le> k \<and> k \<le> 100 \<and> parseFloat (rating (bender ''$1000+'' ''USA'' ''9.2'')) = rnd (of_int k / 10) \<longrightarrow>
          totalScore s' = Finite (of_int k)"
    by (elim exE conjE)
  have "(0 :: int) \<le> 92 \<and> (92 :: int) \<le> 100 \<and>
      parseFloat (rating (bender ''$1000+'' ''USA'' ''9.2'')) = rnd (of_int 92 / 10)"
    by (simp add: r parseFloat_9_2)
  with b(2) [rule_format, of 92] have "totalScore s' = Finite (of_int 92)" .
  then have ts': "totalScore s' = Finite 92" by simp
  show ?thesis using a(1-5) ts b(1) ts' by (simp add: r)
qed

text \<open>
  Claim C9. When the primary scoring throws and the rating text does not parse as a
  number, the fallback still returns, and both the total score and the points of its
  single entry are NaN, which is not an integer between 0 and 100.
\<close>

theorem unparseable_rating_gives_NaN:
  assumes "calculateTubeBenderScore p = Inl err" "parseFloat (rating p) = NaN"
  shows "\<exists>s. scoredProduct calculateTubeBenderScore p = Inr s \<and>
     totalScore s = NaN \<and>
     map points (scoreBreakdown s) = [NaN] \<and>
     \<not> (is_integer (totalScore s) \<and> js_le (Finite 0) (totalScore s) \<and>
        js_le (totalScore s) (Finite 100))"
  using scoredProduct_fallback [of calculateTubeBenderScore p err] assms
  by (simp add: is_integer_def)

theorem unparseable_rating_gives_NaN_witness:
  "parseFloat (rating (bender ''$1000+'' ''USA'' ''N/A'')) = NaN \<and>
   map_sum id totalScore (scoredProduct (\<lambda>p. Inl ()) (bender ''$1000+'' ''USA'' ''N/A'')) = Inr NaN \<and>
   map_sum id (map points \<circ> scoreBreakdown)
     (scoredProduct (\<lambda>p. Inl ()) (bender ''$1000+'' ''USA'' ''N/A'')) = Inr [NaN]"
proof -
  have r: "parseFloat (rating (bender ''$1000+'' ''USA'' ''N/A'')) = NaN"
    by (simp add: bender_def parseFloat_NA)
  from unparseable_rating_gives_NaN [of "\<lambda>p. Inl ()" "bender ''$1000+'' ''USA'' ''N/A''" "()", OF refl r]
  obtain s where s: "scoredProduct (\<lambda>p. Inl ()) (bender ''$1000+'' ''USA'' ''N/A'') = Inr s \<and>
     totalScore s = NaN \<and>
     map points (scoreBreakdown s) = [NaN] \<and>
     \<not> (is_integer (totalScore s) \<and> js_le (Finite 0) (totalScore s) \<and>
        js_le (totalScore s) (Finite 100))" ..
  with r show ?thesis by simp
qed

section \<open>Worked instances\<close>

lemma parseFloat_1000: "parseFloat (strip_non_digits ''$1000+'') = Finite 1000"
proof -
  have d: "strip_non_digits ''$1000+'' = ''1000''"
    by (simp add: strip_non_digits_def is_digit_def)
  have v: "digits_val ''1000'' = 1000"
    by (simp add: digits_val_def digit_val_def)
  have "parseFloat ''1000'' = rnd (of_int (digits_val ''1000''))"
    using parseFloat_digits [of "''1000''"] by (simp add: is_digit_def)
  then show ?thesis by (simp add: d v rnd_numeral)
qed

lemma huge_price_digits: "strip_non_digits huge_price = huge_price"
  by (simp add: strip_non_digits_def huge_price_def is_digit_def)

lemma huge_price_val: "pow2 1024 \<le> of_int (digits_val huge_price)"
  by (simp add: digits_val_def digit_val_def huge_price_def pow2_def)

lemma parseFloat_huge: "parseFloat (strip_non_digits huge_price) = PosInf"
proof -
  have "\<forall>c \<in> set (strip_non_digits huge_price). is_digit c" by (rule strip_non_digits_digits)
  then have "\<forall>c \<in> set huge_price. is_digit c" by (simp only: huge_price_digits)
  moreover have "huge_price \<noteq> []" by (simp add: huge_price_def)
  ultimately have "parseFloat huge_price = rnd (of_int (digits_val huge_price))"
    using parseFloat_digits [of huge_price] by simp
  then show ?thesis using rnd_overflow [OF huge_price_val] by (simp add: huge_price_digits)
qed

lemma example_usa:
  "calculate \<lparr>usage = ''medium'', material = m, timeline = ''3-5-years''\<rparr> (bender ''$1000+'' ''USA'' rt)
   = \<lparr>calc_id = 1, calc_name = ''Bender'', calc_brand = ''Brand'',
      initialCost = Finite 1000, maintenanceCost = Finite 100, supportCost = Finite 200,
      downtimeCost = Finite 100, totalCost = Finite 1400,
      calc_countryOfOrigin = ''USA'', calc_supportQuality = 9, calc_buildQuality = 9\<rparr>"
  by (simp add: calculate_def bender_def parseFloat_1000 js_or_def usageMultiplier_def
      timelineMultiplier_def lit_numeral lit_1 fmul_1000_005 rnd_numeral Let_def)

lemma example_china:
  "calculate \<lparr>usage = ''medium'', material = m, timeline = ''3-5-years''\<rparr> (bender ''$1000+'' ''China'' rt)
   = \<lparr>calc_id = 1, calc_name = ''Bender'', calc_brand = ''Brand'',
      initialCost = Finite 1000, maintenanceCost = Finite 300, supportCost = Finite 600,
      downtimeCost = Finite 400, totalCost = Finite 2300,
      calc_countryOfOrigin = ''China'', calc_supportQuality = 9, calc_buildQuality = 9\<rparr>"
  by (simp add: calculate_def bender_def parseFloat_1000 js_or_def usageMultiplier_def
      timelineMultiplier_def lit_numeral lit_1 fmul_1000_015 rnd_numeral Let_def)

lemma example_huge_usa:
  "calculate \<lparr>usage = ''medium'', material = m, timeline = ''3-5-years''\<rparr> (bender huge_price ''USA'' rt)
   = \<lparr>calc_id = 1, calc_name = ''Bender'', calc_brand = ''Brand'',
      initialCost = PosInf, maintenanceCost = PosInf, supportCost = Finite 200,
      downtimeCost = Finite 100, totalCost = PosInf,
      calc_countryOfOrigin = ''USA'', calc_supportQuality = 9, calc_buildQuality = 9\<rparr>"
  by (simp add: calculate_def bender_def parseFloat_huge js_or_def usageMultiplier_def
      timelineMultiplier_def lit_numeral lit_1 lit_1_20 rnd_numeral Let_def)

lemma valid_body_example: "valid_body (body_of ''medium'' ''chromoly'' ''3-5-years'')"
  by (simp add: valid_body_def valid_field_def body_of_def usage_values_def
      material_values_def timeline_values_def)

lemma request_example:
  "costCalculationRequestSchema_parse (JsonObject (body_of ''medium'' ''chromoly'' ''3-5-years''))
   = Inr \<lparr>usage = ''medium'', material = ''chromoly'', timeline = ''3-5-years''\<rparr>"
  using parse_valid [OF valid_body_example] by (simp add: body_of_def)

lemma response_example:
  "cost_calculator (JsonObject (body_of ''medium'' ''chromoly'' ''3-5-years''))
     (Some [bender ''$1000+'' ''China'' ''8.1'', bender ''$1000+'' ''USA'' ''9.2''])
   = Json200
      \<lparr>request = \<lparr>usage = ''medium'', material = ''chromoly'', timeline = ''3-5-years''\<rparr>,
       calculations =
         [\<lparr>calc_id = 1, calc_name = ''Bender'', calc_brand = ''Brand'',
           initialCost = Finite 1000, maintenanceCost = Finite 100, supportCost = Finite 200,
           downtimeCost = Finite 100, totalCost = Finite 1400,
           calc_countryOfOrigin = ''USA'', calc_supportQuality = 9, calc_buildQuality = 9\<rparr>,
          \<lparr>calc_id = 1, calc_name = ''Bender'', calc_brand = ''Brand'',
           initialCost = Finite 1000, maintenanceCost = Finite 300, supportCost = Finite 600,
           downtimeCost = Finite 400, totalCost = Finite 2300,
           calc_countryOfOrigin = ''China'', calc_supportQuality = 9, calc_buildQuality = 9\<rparr>],
       bestValue =
         Some \<lparr>calc_id = 1, calc_name = ''Bender'', calc_brand = ''Brand'',
           initialCost = Finite 1000, maintenanceCost = Finite 100, supportCost = Finite 200,
           downtimeCost = Finite 100, totalCost = Finite 1400,
           calc_countryOfOrigin = ''USA'', calc_supportQuality = 9, calc_buildQuality = 9\<rparr>,
       savings = Finite 900\<rparr>"
  by (simp add: cost_calculator_def cost_calculator_try_def request_example example_usa
      example_china array_sort_def by_totalCost_def fsub_def rnd_neg rnd_numeral element_def)

section \<open>Order of the totals\<close>

lemma on_grid_iff: "on_grid y \<longleftrightarrow> (\<exists>k. y = of_int k * pow2 (- 1074))"
proof
  assume "on_grid y"
  then have "y = of_int \<lfloor>y / pow2 (- 1074)\<rfloor> * pow2 (- 1074)"
    using pow2_pos [of "- 1074"] by (simp add: on_grid_def field_simps)
  then show "\<exists>k. y = of_int k * pow2 (- 1074)" by blast
next
  assume "\<exists>k. y = of_int k * pow2 (- 1074)"
  then obtain k where "y = of_int k * pow2 (- 1074)" by blast
  then have "y / pow2 (- 1074) = of_int k" using pow2_pos [of "- 1074"] by simp
  then show "on_grid y" by (simp add: on_grid_def)
qed

lemma comparable_rnd: "0 \<le> x \<Longrightarrow> comparable (rnd x)"
proof -
  assume "0 \<le> x"
  then consider "rnd x = PosInf" | y where "rnd x = Finite y"
    using rnd_nonneg [of x] by blast
  then show ?thesis
  proof cases
    case 1
    then show ?thesis by (simp add: comparable_def)
  next
    case 2
    then show ?thesis using rnd_grid [OF 2] by (simp add: comparable_def on_grid_iff)
  qed
qed

lemma comparable_fadd:
  assumes "nonneg a" "nonneg b"
  shows "comparable (fadd a b)"
proof -
  from assms(1) consider "a = PosInf" | x where "a = Finite x" "0 \<le> x"
    by (auto simp: nonneg_iff)
  then show ?thesis
  proof cases
    case 1
    then show ?thesis using assms(2) by (auto simp: nonneg_iff comparable_def)
  next
    case 2
    from assms(2) consider "b = PosInf" | y where "b = Finite y" "0 \<le> y"
      by (auto simp: nonneg_iff)
    then show ?thesis
    proof cases
      case 1
      then show ?thesis using 2 by (simp add: comparable_def)
    next
      case b: 2
      then have "0 \<le> x + y" using 2 by simp
      then show ?thesis using 2 b by (simp add: comparable_rnd)
    qed
  qed
qed

lemma comparable_totalCost: "comparable (totalCost (calculate rq b))"
  unfolding calculate_fields(4)
  by (intro comparable_fadd nonneg_fadd nonneg_initialCost nonneg_components)

lemma comparable_cases:
  assumes "comparable a"
  obtains "a = PosInf" | x where "a = Finite x" "on_grid x"
  using assms by (cases a) (auto simp: comparable_def)

lemma grid_diff_pos:
  assumes "on_grid x" "on_grid y" "x < y"
  shows "pow2 (- 1074) \<le> y - x"
proof -
  from assms(1,2) obtain k l where k: "x = of_int k * pow2 (- 1074)" and l: "y = of_int l * pow2 (- 1074)"
    by (auto simp: on_grid_iff)
  have p: "0 < pow2 (- 1074)" by (rule pow2_pos)
  have "of_int k * pow2 (- 1074) < of_int l * pow2 (- 1074)" using assms(3) k l by simp
  then have "(of_int k :: rat) < of_int l" using p by (simp only: mult_less_cancel_right_pos)
  then have "k < l" by (simp only: of_int_less_iff)
  then have "1 \<le> l - k" by simp
  then have "(1::rat) \<le> of_int (l - k)" by (simp only: of_int_1_le_iff)
  then have "1 * pow2 (- 1074) \<le> of_int (l - k) * pow2 (- 1074)"
    using p by (simp only: mult_le_cancel_right_pos)
  then show ?thesis by (simp add: k l algebra_simps)
qed

lemma by_total_negative:
  assumes "comparable a" "comparable b"
  shows "js_lt (fsub a b) (Finite 0) \<longleftrightarrow> js_lt a b"
proof (cases rule: comparable_cases [OF assms(1)])
  case 1
  then show ?thesis by (cases rule: comparable_cases [OF assms(2)]) (auto simp: fsub_def)
next
  case a: (2 x)
  show ?thesis
  proof (cases rule: comparable_cases [OF assms(2)])
    case 1
    then show ?thesis using a by (simp add: fsub_def)
  next
    case b: (2 y)
    show ?thesis
    proof (cases "x < y")
      case True
      then have "pow2 (- 1074) \<le> y - x" using a(2) b(2) by (intro grid_diff_pos)
      then have "rnd (y - x) = PosInf \<or> (\<exists>z. rnd (y - x) = Finite z \<and> 0 < z)" by (rule rnd_pos)
      moreover have "rnd (x + - y) = fneg (rnd (y - x))" using rnd_neg [of "y - x"] by simp
      ultimately have "js_lt (rnd (x + - y)) (Finite 0)" by auto
      then show ?thesis using a b True by (simp add: fsub_def)
    next
      case False
      then have "0 \<le> x + - y" by simp
      then have "rnd (x + - y) = PosInf \<or> (\<exists>z. rnd (x + - y) = Finite z \<and> 0 \<le> z)" by (rule rnd_nonneg)
      then have "\<not> js_lt (rnd (x + - y)) (Finite 0)" by auto
      then show ?thesis using a b False by (simp add: fsub_def)
    qed
  qed
qed

lemma js_le_trans: "js_le a b \<Longrightarrow> js_le b c \<Longrightarrow> js_le a c"
  by (cases a; cases b; cases c) auto

lemma js_lt_imp_le: "js_lt a b \<Longrightarrow> js_le a b"
  by (cases a; cases b) auto

lemma js_not_lt_imp_le: "comparable a \<Longrightarrow> comparable b \<Longrightarrow> \<not> js_lt a b \<Longrightarrow> js_le b a"
  by (cases a; cases b) (auto simp: comparable_def)

lemma js_lt_le_neq: "js_lt a b \<Longrightarrow> js_le b c \<Longrightarrow> a \<noteq> c"
  by (cases a; cases b; cases c) auto

lemma js_le_refl: "comparable a \<Longrightarrow> js_le a a"
  by (cases a) (auto simp: comparable_def)

section \<open>Sorting by total cost\<close>

lemma set_sort_insert: "set (sort_insert cmp x ys) = insert x (set ys)"
  by (induction ys) auto

lemma sort_insert_not_Nil: "sort_insert cmp x ys \<noteq> []"
  by (cases ys) auto

lemma ascending_insert:
  assumes "ascending ys" "comparable (totalCost x)" "\<forall>y \<in> set ys. comparable (totalCost y)"
  shows "ascending (sort_insert by_totalCost x ys)"
  using assms
proof (induction ys)
  case Nil
  then show ?case by (simp add: ascending_def)
next
  case (Cons y ys)
  have cy: "comparable (totalCost y)" using Cons.prems(3) by simp
  have n: "js_lt (by_totalCost x y) (Finite 0) \<longleftrightarrow> js_lt (totalCost x) (totalCost y)"
    unfolding by_totalCost_def using Cons.prems(2) cy by (rule by_total_negative)
  have tail: "\<forall>z \<in> set ys. js_le (totalCost y) (totalCost z)" and ys: "ascending ys"
    using Cons.prems(1) by (simp_all add: ascending_def)
  show ?case
  proof (cases "js_lt (totalCost x) (totalCost y)")
    case True
    then have xy: "js_le (totalCost x) (totalCost y)" by (rule js_lt_imp_le)
    then have "\<forall>z \<in> set ys. js_le (totalCost x) (totalCost z)"
      using tail js_le_trans by blast
    then show ?thesis using True n xy Cons.prems(1) by (simp add: ascending_def)
  next
    case False
    then have yx: "js_le (totalCost y) (totalCost x)"
      using Cons.prems(2) cy by (intro js_not_lt_imp_le)
    have "ascending (sort_insert by_totalCost x ys)"
      using Cons.IH ys Cons.prems(2,3) by simp
    then show ?thesis using False n yx tail
      by (simp add: ascending_def set_sort_insert)
  qed
qed

lemma with_total_insert:
  assumes "ascending ys" "comparable (totalCost x)" "\<forall>y \<in> set ys. comparable (totalCost y)"
  shows "with_total k (sort_insert by_totalCost x ys) = with_total k ys @ with_total k [x]"
  using assms
proof (induction ys)
  case Nil
  then show ?case by (simp add: with_total_def)
next
  case (Cons y ys)
  have cy: "comparable (totalCost y)" using Cons.prems(3) by simp
  have n: "js_lt (by_totalCost x y) (Finite 0) \<longleftrightarrow> js_lt (totalCost x) (totalCost y)"
    unfolding by_totalCost_def using Cons.prems(2) cy by (rule by_total_negative)
  have tail: "\<forall>z \<in> set ys. js_le (totalCost y) (totalCost z)" and ys: "ascending ys"
    using Cons.prems(1) by (simp_all add: ascending_def)
  show ?case
  proof (cases "js_lt (totalCost x) (totalCost y)")
    case True
    have "\<forall>z \<in> set (y # ys). totalCost x \<noteq> totalCost z"
    proof
      fix z assume "z \<in> set (y # ys)"
      then have "js_le (totalCost y) (totalCost z)" using tail js_le_refl [OF cy] by auto
      with True show "totalCost x \<noteq> totalCost z" by (rule js_lt_le_neq)
    qed
    then have "totalCost x = k \<Longrightarrow> with_total k (y # ys) = []"
      unfolding with_total_def by (auto simp: filter_empty_conv)
    then show ?thesis using True n by (cases "totalCost x = k") (simp_all add: with_total_def)
  next
    case False
    have "with_total k (sort_insert by_totalCost x ys) = with_total k ys @ with_total k [x]"
      using Cons.IH ys Cons.prems(2,3) by simp
    then show ?thesis using False n by (simp add: with_total_def)
  qed
qed

lemma foldl_sort_insert:
  assumes "ascending acc" "\<forall>y \<in> set acc. comparable (totalCost y)"
    "\<forall>x \<in> set xs. comparable (totalCost x)"
  shows "ascending (foldl (\<lambda>acc x. sort_insert by_totalCost x acc) acc xs) \<and>
    with_total k (foldl (\<lambda>acc x. sort_insert by_totalCost x acc) acc xs)
      = with_total k acc @ with_total k xs \<and>
    set (foldl (\<lambda>acc x. sort_insert by_totalCost x acc) acc xs) = set acc \<union> set xs"
  using assms
proof (induction xs arbitrary: acc)
  case Nil
  then show ?case by (simp add: with_total_def)
next
  case (Cons x xs)
  have cx: "comparable (totalCost x)" using Cons.prems(3) by simp
  have a: "ascending (sort_insert by_totalCost x acc)"
    using Cons.prems(1) cx Cons.prems(2) by (rule ascending_insert)
  have c: "\<forall>y \<in> set (sort_insert by_totalCost x acc). comparable (totalCost y)"
    using Cons.prems(2) cx by (simp add: set_sort_insert)
  have w: "with_total k (sort_insert by_totalCost x acc) = with_total k acc @ with_total k [x]"
    using Cons.prems(1) cx Cons.prems(2) by (rule with_total_insert)
  have r: "\<forall>x \<in> set xs. comparable (totalCost x)" using Cons.prems(3) by simp
  from Cons.IH [OF a c r] show ?case
    by (simp add: w set_sort_insert) (simp add: with_total_def)
qed

lemma array_sort_calculations:
  "ascending (array_sort by_totalCost (map (calculate rq) tubeBenders))"
  "with_total k (array_sort by_totalCost (map (calculate rq) tubeBenders))
     = with_total k (map (calculate rq) tubeBenders)"
  "set (array_sort by_totalCost (map (calculate rq) tubeBenders)) = set (map (calculate rq) tubeBenders)"
proof -
  have "ascending [] " by (simp add: ascending_def)
  moreover have "\<forall>y \<in> set ([] :: calculation list). comparable (totalCost y)" by simp
  moreover have "\<forall>x \<in> set (map (calculate rq) tubeBenders). comparable (totalCost x)"
    by (auto simp: comparable_totalCost)
  ultimately have "ascending (array_sort by_totalCost (map (calculate rq) tubeBenders)) \<and>
    with_total k (array_sort by_totalCost (map (calculate rq) tubeBenders))
      = with_total k [] @ with_total k (map (calculate rq) tubeBenders) \<and>
    set (array_sort by_totalCost (map (calculate rq) tubeBenders))
      = set [] \<union> set (map (calculate rq) tubeBenders)"
    unfolding array_sort_def by (rule foldl_sort_insert)
  then show "ascending (array_sort by_totalCost (map (calculate rq) tubeBenders))"
    "with_total k (array_sort by_totalCost (map (calculate rq) tubeBenders))
     = with_total k (map (calculate rq) tubeBenders)"
    "set (array_sort by_totalCost (map (calculate rq) tubeBenders)) = set (map (calculate rq) tubeBenders)"
    by (simp_all add: with_total_def)
qed

lemma ascending_hd_last:
  assumes "ascending cs" "cs \<noteq> []" "\<forall>c \<in> set cs. comparable (totalCost c)"
  shows "js_le (totalCost (hd cs)) (totalCost (last cs))"
proof (cases cs)
  case Nil
  then show ?thesis using assms(2) by simp
next
  case (Cons c r)
  show ?thesis
  proof (cases "r = []")
    case True
    then show ?thesis using Cons assms(3) by (simp add: js_le_refl)
  next
    case False
    then have "last r \<in> set r" by simp
    then show ?thesis using Cons False assms(1) by (simp add: ascending_def)
  qed
qed

lemma nonneg_fsub:
  assumes "js_le a b" "is_finite a" "comparable b"
  shows "nonneg (fsub b a)"
proof -
  from assms(2) obtain x where a: "a = Finite x" by (cases a) (auto simp: is_finite_def)
  show ?thesis
  proof (cases rule: comparable_cases [OF assms(3)])
    case 1
    then show ?thesis using a by (simp add: fsub_def nonneg_iff)
  next
    case (2 y)
    then have "0 \<le> y + - x" using assms(1) a by auto
    then show ?thesis using a 2 by (simp add: fsub_def nonneg_rnd)
  qed
qed

text \<open>
  Claim C3, as the code has it. For a valid request and a non-empty catalogue the route
  answers with a result whose calculations are in ascending order of total cost; the
  entries with any given total are those of the catalogue in catalogue order (the sort is
  stable and neither drops nor adds an entry); the cheapest entry is the first one; the
  savings are the last total minus the first; and they are not negative provided the
  cheapest total is finite. When even the cheapest total has overflowed to infinity the
  difference is NaN.
\<close>

theorem calculations_sorted_with_savings:
  assumes "valid_body body" "tubeBenders \<noteq> []"
  shows "\<exists>r. cost_calculator (JsonObject body) (Some tubeBenders) = Json200 r \<and>
     ascending (calculations r) \<and>
     (\<forall>k. with_total k (calculations r) = with_total k (map (calculate (request r)) tubeBenders)) \<and>
     calculations r \<noteq> [] \<and>
     bestValue r = Some (hd (calculations r)) \<and>
     savings r = fsub (totalCost (last (calculations r))) (totalCost (hd (calculations r))) \<and>
     (is_finite (totalCost (hd (calculations r))) \<longrightarrow> nonneg (savings r))"
proof -
  define rq where "rq = \<lparr>usage = the (body_usage body), material = the (body_material body),
                    timeline = the (body_timeline body)\<rparr>"
  define cs where "cs = array_sort by_totalCost (map (calculate rq) tubeBenders)"
  define r where "r = \<lparr>request = rq, calculations = cs, bestValue = Some (hd cs),
                          savings = fsub (totalCost (last cs)) (totalCost (hd cs))\<rparr>"
  have s: "set cs = set (map (calculate rq) tubeBenders)"
    unfolding cs_def by (rule array_sort_calculations(3))
  then have ne: "cs \<noteq> []" using assms(2) by auto
  have asc: "ascending cs" unfolding cs_def by (rule array_sort_calculations(1))
  have cmp: "\<forall>c \<in> set cs. comparable (totalCost c)"
    unfolding s by (auto simp: comparable_totalCost)
  have resp: "cost_calculator (JsonObject body) (Some tubeBenders) = Json200 r"
    using ne by (simp add: try_outcome [OF assms(1)] Let_def rq_def [symmetric] cs_def [symmetric] r_def)
  have st: "\<forall>k. with_total k (calculations r) = with_total k (map (calculate (request r)) tubeBenders)"
    by (simp add: r_def cs_def array_sort_calculations(2))
  have hl: "js_le (totalCost (hd cs)) (totalCost (last cs))"
    using asc ne cmp by (rule ascending_hd_last)
  have "last cs \<in> set cs" using ne by simp
  then have cl: "comparable (totalCost (last cs))" using cmp by blast
  have sv: "is_finite (totalCost (hd cs)) \<longrightarrow> nonneg (savings r)"
    using hl cl by (simp add: r_def nonneg_fsub)
  show ?thesis using resp asc st ne sv by (intro exI [of _ r]) (simp add: r_def)
qed

theorem calculations_sorted_with_savings_witness:
  "valid_body (body_of ''medium'' ''chromoly'' ''3-5-years'') \<and>
   [bender ''$1000+'' ''China'' ''8.1'', bender ''$1000+'' ''USA'' ''9.2''] \<noteq> [] \<and>
   (\<exists>r. cost_calculator (JsonObject (body_of ''medium'' ''chromoly'' ''3-5-years''))
           (Some [bender ''$1000+'' ''China'' ''8.1'', bender ''$1000+'' ''USA'' ''9.2'']) = Json200 r \<and>
        map totalCost (calculations r) = [Finite 1400, Finite 2300] \<and>
        ascending (calculations r) \<and>
        is_finite (totalCost (hd (calculations r))) \<and>
        savings r = Finite 900 \<and> nonneg (savings r))"
proof -
  let ?B = "JsonObject (body_of ''medium'' ''chromoly'' ''3-5-years'')"
  let ?C = "[bender ''$1000+'' ''China'' ''8.1'', bender ''$1000+'' ''USA'' ''9.2'']"
  have ne: "?C \<noteq> []" by simp
  from calculations_sorted_with_savings [OF valid_body_example ne] obtain r where
    r: "cost_calculator ?B (Some ?C) = Json200 r" and a: "ascending (calculations r)"
    and s: "is_finite (totalCost (hd (calculations r))) \<longrightarrow> nonneg (savings r)"
    by blast
  have t: "map totalCost (calculations r) = [Finite 1400, Finite 2300]" and v: "savings r = Finite 900"
    using r by (auto simp: response_example)
  have f: "is_finite (totalCost (hd (calculations r)))"
    using r by (auto simp: response_example is_finite_def)
  have n: "nonneg (savings r)" using s f by simp
  have "\<exists>r. cost_calculator ?B (Some ?C) = Json200 r \<and>
        map totalCost (calculations r) = [Finite 1400, Finite 2300] \<and>
        ascending (calculations r) \<and>
        is_finite (totalCost (hd (calculations r))) \<and>
        savings r = Finite 900 \<and> nonneg (savings r)"
  proof (intro exI conjI)
    show "cost_calculator ?B (Some ?C) = Json200 r" by (rule r)
    show "map totalCost (calculations r) = [Finite 1400, Finite 2300]" by (rule t)
    show "ascending (calculations r)" by (rule a)
    show "is_finite (totalCost (hd (calculations r)))" by (rule f)
    show "savings r = Finite 900" by (rule v)
    show "nonneg (savings r)" by (rule n)
  qed
  with valid_body_example ne show ?thesis by (intro conjI)
qed

text \<open>
  With a single product whose price text is 309 nines every cost is infinite, and the
  savings, infinity minus infinity, are NaN, which is not a number at least zero.
\<close>

theorem savings_nonneg_counterexample:
  "outcome_of (cost_calculator (JsonObject (body_of ''medium'' ''chromoly'' ''3-5-years''))
      (Some [bender huge_price ''USA'' ''9.2'']))
   = Computed
      [\<lparr>calc_id = 1, calc_name = ''Bender'', calc_brand = ''Brand'',
        initialCost = PosInf, maintenanceCost = PosInf, supportCost = Finite 200,
        downtimeCost = Finite 100, totalCost = PosInf,
        calc_countryOfOrigin = ''USA'', calc_supportQuality = 9, calc_buildQuality = 9\<rparr>]
      (Some \<lparr>calc_id = 1, calc_name = ''Bender'', calc_brand = ''Brand'',
        initialCost = PosInf, maintenanceCost = PosInf, supportCost = Finite 200,
        downtimeCost = Finite 100, totalCost = PosInf,
        calc_countryOfOrigin = ''USA'', calc_supportQuality = 9, calc_buildQuality = 9\<rparr>)
      NaN
   \<and> \<not> nonneg NaN"
  by (simp add: cost_calculator_def cost_calculator_try_def request_example example_huge_usa
      array_sort_def by_totalCost_def fsub_def element_def nonneg_def)

section \<open>Domestic against other origins\<close>

lemma pow2_tiny: "pow2 (- 1022) \<le> 1 / 1000000"
proof -
  have "pow2 (- 1022) \<le> pow2 (- 20)" by (rule pow2_mono) simp
  also have "pow2 (- 20) \<le> 1 / 1000000" by (simp add: pow2_def)
  finally show ?thesis .
qed

lemma pow2_53_small: "pow2 (- 53) \<le> 1 / 1000"
  by (simp add: pow2_def)

lemma rnd_bounds:
  assumes "pow2 (- 1022) \<le> x" "rnd x = Finite y"
  shows "x * (999 / 1000) \<le> y" and "y \<le> x * (1001 / 1000)"
proof -
  have x0: "0 < x" using assms(1) pow2_pos [of "- 1022"] by linarith
  have "\<bar>y - x\<bar> \<le> x * pow2 (- 53)" using assms by (rule rnd_rel_err)
  moreover have "x * pow2 (- 53) \<le> x * (1 / 1000)"
    using x0 pow2_53_small by (simp only: mult_le_cancel_left_pos)
  ultimately have "\<bar>y - x\<bar> \<le> x * (1 / 1000)" by linarith
  then show "x * (999 / 1000) \<le> y" and "y \<le> x * (1001 / 1000)" by linarith+
qed

lemma rnd_lower:
  assumes "pow2 (- 1022) \<le> x"
  shows "js_le (Finite (x * (999 / 1000))) (rnd x)"
proof -
  have "pow2 (- 1074) \<le> pow2 (- 1022)" by (rule pow2_mono) simp
  then have "pow2 (- 1074) \<le> x" using assms by linarith
  then consider "rnd x = PosInf" | y where "rnd x = Finite y"
    using rnd_pos [of x] by blast
  then show ?thesis
  proof cases
    case 1
    then show ?thesis by simp
  next
    case 2
    then show ?thesis using rnd_bounds(1) [OF assms 2] by auto
  qed
qed

lemma finite_fadd:
  assumes "fadd a b = Finite z"
  obtains x y where "a = Finite x" "b = Finite y" "rnd (x + y) = Finite z"
  using assms by (cases a; cases b) auto

lemma finite_fmul:
  assumes "fmul a (Finite c) = Finite z" "c \<noteq> 0"
  obtains x where "a = Finite x" "rnd (x * c) = Finite z"
  using assms by (cases a) (auto split: if_splits)

lemma lower_weaken: "js_le (Finite l) a \<Longrightarrow> m \<le> l \<Longrightarrow> js_le (Finite m) a"
  by (cases a) auto

lemma below_lower: "t < l \<Longrightarrow> js_le (Finite l) a \<Longrightarrow> js_lt (Finite t) a"
  by (cases a) auto

lemma lower_fmul:
  assumes "js_le (Finite l) a" "0 < c" "pow2 (- 1022) \<le> l * c"
  shows "js_le (Finite (l * c * (999 / 1000))) (fmul a (Finite c))"
proof -
  from assms(1) consider "a = PosInf" | x where "a = Finite x" "l \<le> x"
    by (cases a) auto
  then show ?thesis
  proof cases
    case 1
    then show ?thesis using assms(2) by simp
  next
    case 2
    have lx: "l * c \<le> x * c" using 2(2) assms(2) by (intro mult_right_mono) simp_all
    then have "pow2 (- 1022) \<le> x * c" using assms(3) by linarith
    then have "js_le (Finite (x * c * (999 / 1000))) (rnd (x * c))" by (rule rnd_lower)
    moreover have "l * c * (999 / 1000) \<le> x * c * (999 / 1000)"
      using lx by (rule mult_right_mono) simp
    ultimately have "js_le (Finite (l * c * (999 / 1000))) (rnd (x * c))" by (rule lower_weaken)
    then show ?thesis using 2(1) by simp
  qed
qed

lemma lower_fadd:
  assumes "js_le (Finite l) a" "js_le (Finite m) b" "pow2 (- 1022) \<le> l + m"
  shows "js_le (Finite ((l + m) * (999 / 1000))) (fadd a b)"
proof -
  from assms(1) consider "a = PosInf" | x where "a = Finite x" "l \<le> x"
    by (cases a) auto
  then show ?thesis
  proof cases
    case 1
    then show ?thesis using assms(2) by (cases b) auto
  next
    case 2
    from assms(2) consider "b = PosInf" | y where "b = Finite y" "m \<le> y"
      by (cases b) auto
    then show ?thesis
    proof cases
      case 1
      then show ?thesis using 2 by simp
    next
      case b: 2
      have lx: "l + m \<le> x + y" using 2(2) b(2) by simp
      then have "pow2 (- 1022) \<le> x + y" using assms(3) by linarith
      then have "js_le (Finite ((x + y) * (999 / 1000))) (rnd (x + y))" by (rule rnd_lower)
      moreover have "(l + m) * (999 / 1000) \<le> (x + y) * (999 / 1000)"
        using lx by (rule mult_right_mono) simp
      ultimately have "js_le (Finite ((l + m) * (999 / 1000))) (rnd (x + y))" by (rule lower_weaken)
      then show ?thesis using 2(1) b(1) by simp
    qed
  qed
qed

lemma initialCost_lower:
  "initialCost (calculate rq b) = Finite y \<Longrightarrow> 999 / 1000 \<le> y"
proof -
  assume f: "initialCost (calculate rq b) = Finite y"
  let ?n = "digits_val (strip_non_digits (priceRange b))"
  have n0: "0 \<le> ?n" by (rule digits_val_nonneg) (rule strip_non_digits_digits)
  show ?thesis
  proof (cases "strip_non_digits (priceRange b) = [] \<or> ?n = 0")
    case True
    then show ?thesis using f by (auto simp: initialCost_calculate)
  next
    case False
    then have r: "rnd (of_int ?n) = Finite y" using f by (simp add: initialCost_calculate)
    have n1: "(1::rat) \<le> of_int ?n" using False n0 by simp
    have "pow2 (- 1022) \<le> of_int ?n" using n1 pow2_tiny by linarith
    from rnd_bounds(1) [OF this r] n1 show ?thesis by linarith
  qed
qed

lemma heavy_long_multipliers:
  assumes "usage rq = ''heavy''" "timeline rq = ''5-plus-years''"
  shows "usageMultiplier rq = Finite (3 / 2)" "timelineMultiplier rq = Finite 3"
  using assms by (simp_all add: usageMultiplier_def timelineMultiplier_def lit_simps)

lemma domestic_total_upper:
  assumes "fadd (fadd (fadd (Finite b0)
      (fmul (fmul (fmul (Finite b0) (Finite (3602879701896397 / 72057594037927936)))
         (Finite (3 / 2))) (Finite 3))) (Finite 300)) (Finite 225) = Finite T"
    and b0: "999 / 1000 \<le> b0"
  shows "T \<le> b0 * (1238 / 1000) + 527"
proof -
  let ?c = "3602879701896397 / 72057594037927936 :: rat"
  let ?M = "fmul (fmul (fmul (Finite b0) (Finite ?c)) (Finite (3 / 2))) (Finite 3)"
  from assms(1) obtain t2 d where
    t2: "fadd (fadd (Finite b0) ?M) (Finite 300) = Finite t2" and "Finite 225 = Finite d"
    and rT: "rnd (t2 + d) = Finite T"
    by (rule finite_fadd)
  then have d: "d = 225" by simp
  from t2 obtain t1 s where
    t1: "fadd (Finite b0) ?M = Finite t1" and "Finite 300 = Finite s"
    and rt2: "rnd (t1 + s) = Finite t2"
    by (rule finite_fadd)
  then have s: "s = 300" by simp
  from t1 obtain b' m3 where "Finite b0 = Finite b'" and m3: "?M = Finite m3"
    and rt1': "rnd (b' + m3) = Finite t1"
    by (rule finite_fadd)
  then have rt1: "rnd (b0 + m3) = Finite t1" by simp
  from m3 obtain m2 where m2: "fmul (fmul (Finite b0) (Finite ?c)) (Finite (3 / 2)) = Finite m2"
    and rm3: "rnd (m2 * 3) = Finite m3"
    by (rule finite_fmul) simp
  from m2 obtain m1 where m1: "fmul (Finite b0) (Finite ?c) = Finite m1"
    and rm2: "rnd (m1 * (3 / 2)) = Finite m2"
    by (rule finite_fmul) simp
  from m1 have rm1: "rnd (b0 * ?c) = Finite m1" by simp
  note tiny = pow2_tiny
  have x1: "pow2 (- 1022) \<le> b0 * ?c" using b0 tiny by linarith
  have m1l: "b0 * (49 / 1000) \<le> m1" and m1u: "m1 \<le> b0 * (51 / 1000)"
    using rnd_bounds [OF x1 rm1] b0 by linarith+
  have x2: "pow2 (- 1022) \<le> m1 * (3 / 2)" using m1l b0 tiny by linarith
  have m2l: "b0 * (73 / 1000) \<le> m2" and m2u: "m2 \<le> b0 * (77 / 1000)"
    using rnd_bounds [OF x2 rm2] m1l m1u b0 by linarith+
  have x3: "pow2 (- 1022) \<le> m2 * 3" using m2l b0 tiny by linarith
  have m3l: "b0 * (218 / 1000) \<le> m3" and m3u: "m3 \<le> b0 * (232 / 1000)"
    using rnd_bounds [OF x3 rm3] m2l m2u b0 by linarith+
  have x4: "pow2 (- 1022) \<le> b0 + m3" using m3l b0 tiny by linarith
  have t1l: "b0 \<le> t1" and t1u: "t1 \<le> b0 * (1234 / 1000)"
    using rnd_bounds [OF x4 rt1] m3l m3u b0 unfolding distrib_right by linarith+
  have x5: "pow2 (- 1022) \<le> t1 + s" using t1l b0 tiny s by linarith
  have t2l: "299 \<le> t2" and t2u: "t2 \<le> b0 * (1236 / 1000) + 301"
    using rnd_bounds [OF x5 rt2] t1l t1u b0 s unfolding distrib_right by linarith+
  have x6: "pow2 (- 1022) \<le> t2 + d" using t2l tiny d by linarith
  show ?thesis
    using rnd_bounds [OF x6 rT] t2l t2u b0 d unfolding distrib_right by linarith
qed

lemma foreign_total_lower:
  assumes b0: "999 / 1000 \<le> b0"
  shows "js_le (Finite (b0 * (1662 / 1000) + 1797))
    (fadd (fadd (fadd (Finite b0)
      (fmul (fmul (fmul (Finite b0) (Finite (5404319552844595 / 36028797018963968)))
         (Finite (3 / 2))) (Finite 3))) (Finite 900)) (Finite 900))"
proof -
  let ?c = "5404319552844595 / 36028797018963968 :: rat"
  note tiny = pow2_tiny
  have i: "js_le (Finite b0) (Finite b0)" by simp
  have "js_le (Finite (b0 * ?c * (999 / 1000))) (fmul (Finite b0) (Finite ?c))"
    using i by (rule lower_fmul) (use b0 tiny in linarith)+
  then have n1: "js_le (Finite (b0 * (149 / 1000))) (fmul (Finite b0) (Finite ?c))"
    by (rule lower_weaken) (use b0 in linarith)
  have "js_le (Finite (b0 * (149 / 1000) * (3 / 2) * (999 / 1000)))
      (fmul (fmul (Finite b0) (Finite ?c)) (Finite (3 / 2)))"
    using n1 by (rule lower_fmul) (use b0 tiny in linarith)+
  then have n2: "js_le (Finite (b0 * (223 / 1000)))
      (fmul (fmul (Finite b0) (Finite ?c)) (Finite (3 / 2)))"
    by (rule lower_weaken) (use b0 in linarith)
  have "js_le (Finite (b0 * (223 / 1000) * 3 * (999 / 1000)))
      (fmul (fmul (fmul (Finite b0) (Finite ?c)) (Finite (3 / 2))) (Finite 3))"
    using n2 by (rule lower_fmul) (use b0 tiny in linarith)+
  then have n3: "js_le (Finite (b0 * (668 / 1000)))
      (fmul (fmul (fmul (Finite b0) (Finite ?c)) (Finite (3 / 2))) (Finite 3))"
    by (rule lower_weaken) (use b0 in linarith)
  let ?M = "fmul (fmul (fmul (Finite b0) (Finite ?c)) (Finite (3 / 2))) (Finite 3)"
  have "js_le (Finite ((b0 + b0 * (668 / 1000)) * (999 / 1000))) (fadd (Finite b0) ?M)"
    using i n3 by (rule lower_fadd) (use b0 tiny in linarith)
  then have u1: "js_le (Finite (b0 * (1666 / 1000))) (fadd (Finite b0) ?M)"
    by (rule lower_weaken) (use b0 in \<open>unfold distrib_right, linarith\<close>)
  have k: "js_le (Finite 900) (Finite 900)" by simp
  have "js_le (Finite ((b0 * (1666 / 1000) + 900) * (999 / 1000)))
      (fadd (fadd (Finite b0) ?M) (Finite 900))"
    using u1 k by (rule lower_fadd) (use b0 tiny in linarith)
  then have u2: "js_le (Finite (b0 * (1664 / 1000) + 899)) (fadd (fadd (Finite b0) ?M) (Finite 900))"
    by (rule lower_weaken) (use b0 in \<open>unfold distrib_right, linarith\<close>)
  have "js_le (Finite ((b0 * (1664 / 1000) + 899 + 900) * (999 / 1000)))
      (fadd (fadd (fadd (Finite b0) ?M) (Finite 900)) (Finite 900))"
    using u2 k by (rule lower_fadd) (use b0 tiny in linarith)
  then show ?thesis
    by (rule lower_weaken) (use b0 in \<open>unfold distrib_right, linarith\<close>)
qed

text \<open>
  Claim C7, as the code has it. At usage \<open>heavy\<close> and timeline \<open>5-plus-years\<close>, of two
  products with the same baseline, one of origin \<open>USA\<close> and one of another origin, the
  first has the strictly lower total, provided its own total is finite (the other total
  may then still be infinite). Every product, sum and rounding of the two computations is
  followed: each rounding moves a value by less than one part in a thousand, which the gap
  between the two totals absorbs.
\<close>

theorem domestic_cheaper_when_finite:
  assumes "usage rq = ''heavy''" "timeline rq = ''5-plus-years''"
    and "countryOfOrigin b1 = ''USA''" "countryOfOrigin b2 \<noteq> ''USA''"
    and "initialCost (calculate rq b1) = initialCost (calculate rq b2)"
    and "is_finite (totalCost (calculate rq b1))"
  shows "js_lt (totalCost (calculate rq b1)) (totalCost (calculate rq b2))"
proof -
  note m = heavy_long_multipliers [OF assms(1,2)]
  obtain T where T: "totalCost (calculate rq b1) = Finite T"
    using assms(6) by (cases "totalCost (calculate rq b1)") (auto simp: is_finite_def)
  have S1: "supportCost (calculate rq b1) = Finite 300"
    and D1: "downtimeCost (calculate rq b1) = Finite 225"
    using assms(3) by (simp_all add: calculate_fields m rnd_numeral)
  have S2: "supportCost (calculate rq b2) = Finite 900"
    and D2: "downtimeCost (calculate rq b2) = Finite 900"
    using assms(4) by (simp_all add: calculate_fields m rnd_numeral)
  have M1: "maintenanceCost (calculate rq b1) =
      fmul (fmul (fmul (initialCost (calculate rq b1)) (Finite (3602879701896397 / 72057594037927936)))
         (Finite (3 / 2))) (Finite 3)"
    using assms(3) by (simp add: calculate_fields(1) m lit_1_20 del: fmul.simps)
  have M2: "maintenanceCost (calculate rq b2) =
      fmul (fmul (fmul (initialCost (calculate rq b1)) (Finite (5404319552844595 / 36028797018963968)))
         (Finite (3 / 2))) (Finite 3)"
    using assms(4) by (simp add: calculate_fields(1) m lit_3_20 assms(5) del: fmul.simps)
  have T1: "totalCost (calculate rq b1) =
      fadd (fadd (fadd (initialCost (calculate rq b1)) (maintenanceCost (calculate rq b1)))
        (Finite 300)) (Finite 225)"
    by (simp only: calculate_fields(4) S1 D1)
  have T2: "totalCost (calculate rq b2) =
      fadd (fadd (fadd (initialCost (calculate rq b1)) (maintenanceCost (calculate rq b2)))
        (Finite 900)) (Finite 900)"
    by (simp only: calculate_fields(4) S2 D2 assms(5))
  from T [unfolded T1] obtain t2 d where
    "fadd (fadd (initialCost (calculate rq b1)) (maintenanceCost (calculate rq b1))) (Finite 300) = Finite t2"
    by (rule finite_fadd)
  then obtain t1 s where
    "fadd (initialCost (calculate rq b1)) (maintenanceCost (calculate rq b1)) = Finite t1"
    by (rule finite_fadd)
  then obtain b0 m3 where I: "initialCost (calculate rq b1) = Finite b0"
    by (rule finite_fadd)
  have b0: "999 / 1000 \<le> b0" using I by (rule initialCost_lower)
  have "T \<le> b0 * (1238 / 1000) + 527"
    using T b0 unfolding T1 M1 I by (rule domestic_total_upper)
  then have lt: "T < b0 * (1662 / 1000) + 1797" using b0 by linarith
  have "js_le (Finite (b0 * (1662 / 1000) + 1797)) (totalCost (calculate rq b2))"
    unfolding T2 M2 I using b0 by (rule foreign_total_lower)
  with lt have "js_lt (Finite T) (totalCost (calculate rq b2))" by (rule below_lower)
  then show ?thesis by (simp only: T)
qed

lemma example_heavy_usa:
  "calculate \<lparr>usage = ''heavy'', material = m, timeline = ''5-plus-years''\<rparr> (bender ''$1000+'' ''USA'' rt)
   = \<lparr>calc_id = 1, calc_name = ''Bender'', calc_brand = ''Brand'',
      initialCost = Finite 1000, maintenanceCost = Finite 225, supportCost = Finite 300,
      downtimeCost = Finite 225, totalCost = Finite 1750,
      calc_countryOfOrigin = ''USA'', calc_supportQuality = 9, calc_buildQuality = 9\<rparr>"
  by (simp add: calculate_def bender_def parseFloat_1000 js_or_def usageMultiplier_def
      timelineMultiplier_def lit_numeral lit_three_halves fmul_1000_005 rnd_numeral Let_def)

lemma example_heavy_china:
  "calculate \<lparr>usage = ''heavy'', material = m, timeline = ''5-plus-years''\<rparr> (bender ''$1000+'' ''China'' rt)
   = \<lparr>calc_id = 1, calc_name = ''Bender'', calc_brand = ''Brand'',
      initialCost = Finite 1000, maintenanceCost = Finite 675, supportCost = Finite 900,
      downtimeCost = Finite 900, totalCost = Finite 3475,
      calc_countryOfOrigin = ''China'', calc_supportQuality = 9, calc_buildQuality = 9\<rparr>"
  by (simp add: calculate_def bender_def parseFloat_1000 js_or_def usageMultiplier_def
      timelineMultiplier_def lit_numeral lit_three_halves fmul_1000_015 rnd_numeral Let_def)

lemma example_heavy_huge:
  "totalCost (calculate \<lparr>usage = ''heavy'', material = m, timeline = ''5-plus-years''\<rparr>
     (bender huge_price origin rt)) = PosInf"
  by (simp add: calculate_def bender_def parseFloat_huge js_or_def usageMultiplier_def
      timelineMultiplier_def lit_numeral lit_three_halves lit_1_20 lit_3_20 rnd_numeral Let_def)

theorem domestic_cheaper_when_finite_witness:
  "usage \<lparr>usage = ''heavy'', material = ''chromoly'', timeline = ''5-plus-years''\<rparr> = ''heavy'' \<and>
   timeline \<lparr>usage = ''heavy'', material = ''chromoly'', timeline = ''5-plus-years''\<rparr> = ''5-plus-years'' \<and>
   countryOfOrigin (bender ''$1000+'' ''USA'' ''9.2'') = ''USA'' \<and>
   countryOfOrigin (bender ''$1000+'' ''China'' ''9.2'') \<noteq> ''USA'' \<and>
   totalCost (calculate \<lparr>usage = ''heavy'', material = ''chromoly'', timeline = ''5-plus-years''\<rparr>
      (bender ''$1000+'' ''USA'' ''9.2'')) = Finite 1750 \<and>
   totalCost (calculate \<lparr>usage = ''heavy'', material = ''chromoly'', timeline = ''5-plus-years''\<rparr>
      (bender ''$1000+'' ''China'' ''9.2'')) = Finite 3475 \<and>
   js_lt (totalCost (calculate \<lparr>usage = ''heavy'', material = ''chromoly'', timeline = ''5-plus-years''\<rparr>
            (bender ''$1000+'' ''USA'' ''9.2'')))
         (totalCost (calculate \<lparr>usage = ''heavy'', material = ''chromoly'', timeline = ''5-plus-years''\<rparr>
            (bender ''$1000+'' ''China'' ''9.2'')))"
proof -
  let ?rq = "\<lparr>usage = ''heavy'', material = ''chromoly'', timeline = ''5-plus-years''\<rparr>"
  let ?u = "bender ''$1000+'' ''USA'' ''9.2''"
  let ?c = "bender ''$1000+'' ''China'' ''9.2''"
  have h1: "usage ?rq = ''heavy''" and h2: "timeline ?rq = ''5-plus-years''" by simp_all
  have h3: "countryOfOrigin ?u = ''USA''" and h4: "countryOfOrigin ?c \<noteq> ''USA''"
    by (simp_all add: bender_def)
  have h5: "initialCost (calculate ?rq ?u) = initialCost (calculate ?rq ?c)"
    by (simp add: example_heavy_usa example_heavy_china)
  have tu: "totalCost (calculate ?rq ?u) = Finite 1750" by (simp add: example_heavy_usa)
  have tc: "totalCost (calculate ?rq ?c) = Finite 3475" by (simp add: example_heavy_china)
  have h6: "is_finite (totalCost (calculate ?rq ?u))" by (simp add: tu is_finite_def)
  note lt = domestic_cheaper_when_finite [OF h1 h2 h3 h4 h5 h6]
  show ?thesis
  proof (intro conjI)
    show "usage ?rq = ''heavy''" by (rule h1)
    show "timeline ?rq = ''5-plus-years''" by (rule h2)
    show "countryOfOrigin ?u = ''USA''" by (rule h3)
    show "countryOfOrigin ?c \<noteq> ''USA''" by (rule h4)
    show "totalCost (calculate ?rq ?u) = Finite 1750" by (rule tu)
    show "totalCost (calculate ?rq ?c) = Finite 3475" by (rule tc)
    show "js_lt (totalCost (calculate ?rq ?u)) (totalCost (calculate ?rq ?c))" by (rule lt)
  qed
qed

text \<open>
  With a price text of 309 nines the baseline is infinite for both origins, so both
  totals are infinite and neither is lower than the other.
\<close>

theorem domestic_not_cheaper_counterexample:
  "totalCost (calculate \<lparr>usage = ''heavy'', material = ''chromoly'', timeline = ''5-plus-years''\<rparr>
      (bender huge_price ''USA'' ''9.2'')) = PosInf \<and>
   totalCost (calculate \<lparr>usage = ''heavy'', material = ''chromoly'', timeline = ''5-plus-years''\<rparr>
      (bender huge_price ''China'' ''9.2'')) = PosInf \<and>
   \<not> js_lt (totalCost (calculate \<lparr>usage = ''heavy'', material = ''chromoly'', timeline = ''5-plus-years''\<rparr>
              (bender huge_price ''USA'' ''9.2'')))
           (totalCost (calculate \<lparr>usage = ''heavy'', material = ''chromoly'', timeline = ''5-plus-years''\<rparr>
              (bender huge_price ''China'' ''9.2'')))"
  by (simp add: example_heavy_huge)

section \<open>The cost components and their formulas\<close>

subsection \<open>The baseline and the digits of the price text\<close>

lemma price_digits_strip: "strip_non_digits s = price_digits s"
  unfolding strip_non_digits_def price_digits_def
  by (rule filter_cong [OF refl]) (simp add: is_digit_def)

lemma digit_val_numeral_digit: "is_digit c \<Longrightarrow> digit_val c = numeral_digit c"
  unfolding is_digit_cases
  by (elim disjE; hypsubst) (simp_all add: digit_val_def numeral_digit_def)

lemma digits_val_snoc: "digits_val (ds @ [c]) = 10 * digits_val ds + digit_val c"
  by (simp add: digits_val_def)

lemma decimal_value_snoc: "decimal_value (ds @ [c]) = numeral_digit c + 10 * decimal_value ds"
  by (simp add: decimal_value_def)

lemma digits_val_decimal_value:
  "\<forall>c \<in> set ds. is_digit c \<Longrightarrow> digits_val ds = decimal_value ds"
proof (induction ds rule: rev_induct)
  case Nil
  show ?case by (simp add: digits_val_def decimal_value_def)
next
  case (snoc c ds)
  then have "digits_val ds = decimal_value ds" "is_digit c" by simp_all
  then show ?case
    by (simp only: digits_val_snoc decimal_value_snoc digit_val_numeral_digit)
qed


lemma decimal_value_nonneg: "0 \<le> decimal_value (price_digits s)"
proof -
  have "0 \<le> digits_val (strip_non_digits s)"
    by (rule digits_val_nonneg) (rule strip_non_digits_digits)
  moreover have "digits_val (strip_non_digits s) = decimal_value (strip_non_digits s)"
    by (rule digits_val_decimal_value) (rule strip_non_digits_digits)
  ultimately show ?thesis by (simp only: price_digits_strip)
qed


subsection \<open>The multipliers, support and downtime\<close>




subsection \<open>Maintenance\<close>





subsection \<open>The total\<close>




subsection \<open>Entries worked out\<close>

















subsection \<open>The claim\<close>




end
